theory Spec2Isabelle
  imports Complex_Main "HOL-Library.Sublist"
begin

section \<open>Python values used by the NER notebook\<close>

text \<open>
  A Python 3 \<^verbatim>\<open>str\<close> is a sequence of Unicode code points. It is modelled as a list of
  natural numbers, one per code point, so that the whitespace test of \<^verbatim>\<open>str.strip\<close> and
  \<^verbatim>\<open>str.split\<close> can be the one CPython uses. Literals of the notebook are written
  \<open>py_str ''...''\<close>.
\<close>

type_synonym pystr = "nat list"

definition py_str :: "string \<Rightarrow> pystr" where
  "py_str s = map of_char s"

text \<open>
  The exceptions the modelled cells can raise: \<^verbatim>\<open>IndexError\<close> (an index past the end,
  a boolean mask of the wrong length), \<^verbatim>\<open>KeyError\<close> (a missing dictionary key),
  \<^verbatim>\<open>ValueError\<close> (numpy on an empty sequence or on arrays of different shapes) and \<^verbatim>\<open>FileNotFoundError\<close> (a missing
  vocabulary file).
\<close>

datatype error = IndexError | KeyError | ValueError | FileNotFoundError

text \<open>Sequencing of two steps: an exception of the first step ends the computation.\<close>

definition bind_err :: "error + 'a \<Rightarrow> ('a \<Rightarrow> error + 'b) \<Rightarrow> error + 'b" where
  "bind_err m f = (case m of Inl e \<Rightarrow> Inl e | Inr x \<Rightarrow> f x)"

text \<open>\<^verbatim>\<open>xs[j]\<close> for an index \<open>j \<ge> 0\<close> (the loop counters of \<^verbatim>\<open>enumerate\<close>).\<close>

definition py_index :: "'a list \<Rightarrow> nat \<Rightarrow> error + 'a" where
  "py_index xs j = (if j < length xs then Inr (xs ! j) else Inl IndexError)"

text \<open>\<^verbatim>\<open>d[k]\<close> on a dictionary.\<close>

definition dict_get :: "('k \<rightharpoonup> 'v) \<Rightarrow> 'k \<Rightarrow> error + 'v" where
  "dict_get d k = (case d k of None \<Rightarrow> Inl KeyError | Some v \<Rightarrow> Inr v)"

subsection \<open>Whitespace, \<^verbatim>\<open>strip\<close>, \<^verbatim>\<open>split\<close> and \<^verbatim>\<open>join\<close>\<close>

text \<open>
  The code points for which \<^verbatim>\<open>str.isspace\<close> holds: U+0009..U+000D, U+001C..U+0020,
  U+0085, U+00A0, U+1680, U+2000..U+200A, U+2028, U+2029, U+202F, U+205F, U+3000.
\<close>

definition isspace :: "nat \<Rightarrow> bool" where
  "isspace c \<longleftrightarrow>
     (9 \<le> c \<and> c \<le> 13) \<or> (28 \<le> c \<and> c \<le> 32) \<or> c = 133 \<or> c = 160 \<or> c = 5760 \<or>
     (8192 \<le> c \<and> c \<le> 8202) \<or> c = 8232 \<or> c = 8233 \<or> c = 8239 \<or> c = 8287 \<or> c = 12288"

abbreviation nonspace :: "nat \<Rightarrow> bool" where
  "nonspace \<equiv> (\<lambda>c. \<not> isspace c)"

text \<open>\<^verbatim>\<open>s.strip()\<close>: leading and trailing whitespace removed.\<close>

definition strip :: "pystr \<Rightarrow> pystr" where
  "strip s = rev (dropWhile isspace (rev (dropWhile isspace s)))"

text \<open>
  \<^verbatim>\<open>s.split()\<close> with no separator: skip a run of whitespace, take the run of
  non-whitespace that follows as the next word, repeat; no empty word is produced.
\<close>

function split :: "pystr \<Rightarrow> pystr list" where
  "split s =
     (let t = dropWhile isspace s
      in if t = [] then [] else takeWhile nonspace t # split (dropWhile nonspace t))"
  by pat_completeness auto
termination
proof (relation "measure length")
  show "wf (measure length)" by simp
next
  fix s t :: pystr
  assume t: "t = dropWhile isspace s" and ne: "t \<noteq> []"
  from ne obtain c cs where c: "t = c # cs" by (cases t) auto
  with t have "\<not> isspace c" by (metis hd_dropWhile list.sel(1) ne)
  then have "length (dropWhile nonspace t) \<le> length cs"
    using c by (simp add: length_dropWhile_le)
  moreover have "length t \<le> length s" using t by (simp add: length_dropWhile_le)
  ultimately show "(dropWhile nonspace t, s) \<in> measure length" using c by simp
qed

declare split.simps [simp del]

text \<open>\<^verbatim>\<open>sep.join(ws)\<close>.\<close>

fun join :: "pystr \<Rightarrow> pystr list \<Rightarrow> pystr" where
  "join sep [] = []"
| "join sep [w] = w"
| "join sep (w # v # ws) = w @ sep @ join sep (v # ws)"

section \<open>Input parameters of the notebook\<close>

definition DATA_DIR :: pystr where
  "DATA_DIR = py_str ''/dli/task/data/NCBI_ner-3/''"

definition CHECKPOINTS_PATH :: pystr where
  "CHECKPOINTS_PATH = py_str ''/ngc_checkpoints/checkpoints/''"

definition MODEL_TYPE :: pystr where
  "MODEL_TYPE = py_str ''biobert''"

definition MAX_SEQ_LEN :: nat where
  "MAX_SEQ_LEN = 128"

definition BATCH_SIZE :: nat where
  "BATCH_SIZE = 16"

definition NONE_LABEL :: pystr where
  "NONE_LABEL = py_str ''O''"

definition NUM_CLASSES :: nat where
  "NUM_CLASSES = 3"

text \<open>The dictionaries keyed by the model type.\<close>

definition PRETRAINED_MODEL_NAME :: "pystr \<rightharpoonup> pystr" where
  "PRETRAINED_MODEL_NAME =
     map_of [(py_str ''biobert'', py_str ''bert-base-cased''),
             (py_str ''biomegatron'', py_str ''megatron-bert-uncased'')]"

definition DO_LOWER_CASE :: "pystr \<rightharpoonup> bool" where
  "DO_LOWER_CASE =
     map_of [(py_str ''biobert'', False),
             (py_str ''biomegatron'', True)]"

definition WORK_DIR :: "pystr \<rightharpoonup> pystr" where
  "WORK_DIR =
     map_of [(py_str ''biobert'', py_str ''/dli/task/data/logs-ner-biobert/''),
             (py_str ''biomegatron'', py_str ''/dli/task/data/logs-ner-biomegatron'')]"

definition NGC_CHECKPOINT :: "pystr \<rightharpoonup> pystr" where
  "NGC_CHECKPOINT =
     map_of [(py_str ''biobert'', CHECKPOINTS_PATH @ py_str ''biobert/BERT.pt''),
             (py_str ''biomegatron'', CHECKPOINTS_PATH @ py_str ''biomegatron/MegatronBERT.pt'')]"

definition NGC_CONFIG :: "pystr \<rightharpoonup> pystr" where
  "NGC_CONFIG =
     map_of [(py_str ''biobert'', CHECKPOINTS_PATH @ py_str ''biobert/bert_config.json''),
             (py_str ''biomegatron'', CHECKPOINTS_PATH @ py_str ''biomegatron/config.json'')]"

section \<open>Data layers\<close>

text \<open>
  \<^verbatim>\<open>os.path.join(a, b)\<close> on POSIX: an absolute \<open>b\<close> replaces \<open>a\<close>; otherwise \<open>b\<close> is
  appended, after a \<^verbatim>\<open>/\<close> unless \<open>a\<close> is empty or already ends with one.
\<close>

definition os_path_join :: "pystr \<Rightarrow> pystr \<Rightarrow> pystr" where
  "os_path_join a b =
     (if prefix (py_str ''/'') b then b
      else if a = [] \<or> suffix (py_str ''/'') a then a @ b
      else a @ py_str ''/'' @ b)"

text \<open>The arguments of \<^verbatim>\<open>get_tokenizer\<close>.\<close>

record tokenizer_args =
  tokenizer_name :: pystr
  pretrained_model_name :: pystr
  do_lower_case :: bool

definition tokenizer :: "pystr \<Rightarrow> error + tokenizer_args" where
  "tokenizer model_type =
     bind_err (dict_get PRETRAINED_MODEL_NAME model_type) (\<lambda>name.
     bind_err (dict_get DO_LOWER_CASE model_type) (\<lambda>lower.
     Inr \<lparr>tokenizer_name = py_str ''nemobert'',
          pretrained_model_name = name,
          do_lower_case = lower\<rparr>))"

text \<open>
  The parameters of \<^verbatim>\<open>BertTokenClassificationDataLayer\<close>, in the order of its signature
  as the notebook \<^verbatim>\<open>020_ExploreNeMo\<close> prints it:
  \<^verbatim>\<open>(text_file, label_file, tokenizer, max_seq_length, pad_label='O', label_ids=None,
  num_samples=-1, shuffle=False, batch_size=64, ignore_extra_tokens=False,
  ignore_start_end=False, use_cache=False, dataset_type=...)\<close>.
  The constructor below takes the four required arguments and fills in the defaults; a
  keyword argument of a call is a record update on its result. (\<^verbatim>\<open>dataset_type\<close>, a
  class of the framework, is left out.)
\<close>

record token_data_layer =
  text_file :: pystr
  label_file :: pystr
  dl_tokenizer :: tokenizer_args
  max_seq_length :: nat
  pad_label :: pystr
  label_ids :: "(pystr \<rightharpoonup> int) option"
  num_samples :: int
  shuffle :: bool
  batch_size :: nat
  ignore_extra_tokens :: bool
  ignore_start_end :: bool
  use_cache :: bool

definition BertTokenClassificationDataLayer ::
  "pystr \<Rightarrow> pystr \<Rightarrow> tokenizer_args \<Rightarrow> nat \<Rightarrow> token_data_layer" where
  "BertTokenClassificationDataLayer text labels tok len =
     \<lparr>text_file = text, label_file = labels, dl_tokenizer = tok, max_seq_length = len,
      pad_label = py_str ''O'', label_ids = None, num_samples = - 1, shuffle = False,
      batch_size = 64, ignore_extra_tokens = False, ignore_start_end = False,
      use_cache = False\<rparr>"

definition USE_CACHE :: bool where
  "USE_CACHE = True"

definition dl_train :: "error + token_data_layer" where
  "dl_train =
     bind_err (tokenizer MODEL_TYPE) (\<lambda>tok.
     Inr ((BertTokenClassificationDataLayer
            (os_path_join DATA_DIR (py_str ''text_train.txt''))
            (os_path_join DATA_DIR (py_str ''labels_train.txt''))
            tok MAX_SEQ_LEN)
          \<lparr>shuffle := True, batch_size := BATCH_SIZE, use_cache := USE_CACHE\<rparr>))"

text \<open>
  The call of \<^verbatim>\<open>BertTokenClassificationInferDataLayer\<close> passes exactly four keyword
  arguments; none of them is a file.
\<close>

record infer_data_layer =
  infer_tokenizer :: tokenizer_args
  queries :: "pystr list"
  infer_max_seq_length :: nat
  infer_batch_size :: nat

definition dl_test :: "pystr list \<Rightarrow> error + infer_data_layer" where
  "dl_test qs =
     bind_err (tokenizer MODEL_TYPE) (\<lambda>tok.
     Inr \<lparr>infer_tokenizer = tok, queries = qs,
          infer_max_seq_length = MAX_SEQ_LEN, infer_batch_size = 1\<rparr>)"

section \<open>Gathering the inference results\<close>

text \<open>
  \<^verbatim>\<open>add_brackets(text, add=True)\<close>. The second argument is optional: \<open>None\<close> is a call
  that leaves it out.
\<close>

definition add_brackets :: "pystr \<Rightarrow> bool option \<Rightarrow> pystr" where
  "add_brackets text add_arg =
     (let add = (case add_arg of None \<Rightarrow> True | Some b \<Rightarrow> b)
      in if add then py_str ''['' @ text @ py_str '']'' else text)"

text \<open>
  The tensors returned by \<^verbatim>\<open>nf.infer\<close> are arrays: an array is a list along its
  first axis, of rows that all have one shape. A nested list does not carry the shape
  numpy keeps with an array, so the function that reads the shape of a row is an
  argument of the operations that compare shapes.
\<close>

definition same_shape :: "('a \<Rightarrow> 's) \<Rightarrow> 'a list \<Rightarrow> bool" where
  "same_shape shape rows = list_all (\<lambda>r. shape r = shape (hd rows)) rows"

text \<open>
  \<^verbatim>\<open>concatenate\<close> joins the batches along the first axis. numpy raises \<^verbatim>\<open>ValueError\<close>
  on an empty list of arrays, and when the arrays differ in a dimension other than the
  first, that is, when the rows of the batches do not all have one shape.
\<close>

definition concatenate :: "('a \<Rightarrow> 's) \<Rightarrow> 'a list list \<Rightarrow> error + 'a list" where
  "concatenate shape tensors =
     (if tensors = [] then Inl ValueError
      else if same_shape shape (concat tensors) then Inr (concat tensors)
      else Inl ValueError)"

text \<open>
  \<^verbatim>\<open>np.argmax\<close> along one axis returns the first index of the largest entry, and
  raises on an empty axis. Logits are values of a linear order (no NaN).
\<close>

fun argmax_from :: "'a::linorder \<Rightarrow> nat \<Rightarrow> nat \<Rightarrow> 'a list \<Rightarrow> nat" where
  "argmax_from best pos k [] = pos"
| "argmax_from best pos k (x # xs) =
     (if best < x then argmax_from x k (Suc k) xs else argmax_from best pos (Suc k) xs)"

definition argmax :: "'a::linorder list \<Rightarrow> error + int" where
  "argmax xs =
     (case xs of [] \<Rightarrow> Inl ValueError | x # rest \<Rightarrow> Inr (int (argmax_from x 0 1 rest)))"

fun map_err :: "('a \<Rightarrow> error + 'b) \<Rightarrow> 'a list \<Rightarrow> error + 'b list" where
  "map_err f [] = Inr []"
| "map_err f (x # xs) =
     bind_err (f x) (\<lambda>y. bind_err (map_err f xs) (\<lambda>ys. Inr (y # ys)))"

text \<open>\<^verbatim>\<open>np.argmax(logits, axis=2)\<close> on a three-dimensional array.\<close>

definition argmax_axis2 :: "'a::linorder list list list \<Rightarrow> error + int list list" where
  "argmax_axis2 logits = map_err (map_err argmax) logits"

text \<open>
  The cell
  \<^verbatim>\<open>logits, subtokens_mask = [concatenate(tensors) for tensors in test_logits_tensors]\<close>,
  \<^verbatim>\<open>preds = np.argmax(logits, axis=2)\<close>; \<open>test_logits_tensors\<close> holds the batches of the
  two tensors asked of \<^verbatim>\<open>nf.infer\<close>. A row of the logits has one vector of class
  scores per position, and its shape is the list of their lengths; a row of the mask
  has one number per position, and its shape is its length.
\<close>

definition gather ::
  "'a::linorder list list list list \<times> real list list list
     \<Rightarrow> error + int list list \<times> real list list" where
  "gather test_logits_tensors =
     (case test_logits_tensors of (logits_batches, mask_batches) \<Rightarrow>
        bind_err (concatenate (map length) logits_batches) (\<lambda>logits.
        bind_err (concatenate length mask_batches) (\<lambda>subtokens_mask.
        bind_err (argmax_axis2 logits) (\<lambda>preds.
        Inr (preds, subtokens_mask)))))"

section \<open>Labelling the queries\<close>

text \<open>
  \<^verbatim>\<open>xs[bs]\<close> with a boolean array \<open>bs\<close>: the entries of \<open>xs\<close> where \<open>bs\<close> is true, in
  order; numpy raises \<^verbatim>\<open>IndexError\<close> when the two lengths differ.
\<close>

definition mask_select :: "'a list \<Rightarrow> bool list \<Rightarrow> error + 'a list" where
  "mask_select xs bs =
     (if length bs = length xs then Inr (map fst (filter snd (zip xs bs)))
      else Inl IndexError)"

text \<open>
  The inner loop \<^verbatim>\<open>for j, w in enumerate(words)\<close>; \<open>j\<close> is the counter, the list holds
  the words still to come and \<open>output\<close> is the string built so far.
\<close>

fun label_words ::
  "(int \<rightharpoonup> pystr) \<Rightarrow> int list \<Rightarrow> nat \<Rightarrow> pystr list \<Rightarrow> pystr \<Rightarrow> error + pystr" where
  "label_words labels_dict pred j [] output = Inr output"
| "label_words labels_dict pred j (w # ws) output =
     (let output = output @ w
      in bind_err (py_index pred j) (\<lambda>p.
         bind_err (dict_get labels_dict p) (\<lambda>label.
         let output = (if label \<noteq> NONE_LABEL then output @ add_brackets label None
                       else output)
         in label_words labels_dict pred (Suc j) ws (output @ py_str '' ''))))"

text \<open>\<^verbatim>\<open>pred = preds[i][subtokens_mask[i] > 0.5]\<close>.\<close>

definition filtered_pred :: "int list list \<Rightarrow> real list list \<Rightarrow> nat \<Rightarrow> error + int list" where
  "filtered_pred preds subtokens_mask i =
     bind_err (py_index preds i) (\<lambda>row.
     bind_err (py_index subtokens_mask i) (\<lambda>mask.
     mask_select row (map (\<lambda>m. m > 0.5) mask)))"

text \<open>
  The labelling of one query from its filtered predictions: the words, the empty
  \<open>output\<close>, the inner loop. The result is the value of \<open>output\<close> after the loop.
\<close>

definition label_query :: "(int \<rightharpoonup> pystr) \<Rightarrow> int list \<Rightarrow> pystr \<Rightarrow> error + pystr" where
  "label_query labels_dict pred query =
     (let words = split (strip query)
      in label_words labels_dict pred 0 words [])"

text \<open>The body of the outer loop for the \<open>i\<close>-th query, up to the end of the inner loop.\<close>

definition query_output ::
  "(int \<rightharpoonup> pystr) \<Rightarrow> int list list \<Rightarrow> real list list \<Rightarrow> nat \<Rightarrow> pystr \<Rightarrow> error + pystr"
  where
  "query_output labels_dict preds subtokens_mask i query =
     bind_err (filtered_pred preds subtokens_mask i) (\<lambda>pred.
     label_query labels_dict pred query)"

text \<open>The string printed under \<^verbatim>\<open>Labeled Result:\<close>, \<^verbatim>\<open>output.strip()\<close>.\<close>

definition labeled_result ::
  "(int \<rightharpoonup> pystr) \<Rightarrow> int list list \<Rightarrow> real list list \<Rightarrow> nat \<Rightarrow> pystr \<Rightarrow> error + pystr"
  where
  "labeled_result labels_dict preds subtokens_mask i query =
     bind_err (query_output labels_dict preds subtokens_mask i query) (\<lambda>output.
     Inr (strip output))"

text \<open>
  What the cell prints, without the coloured separator lines: the query, then its
  labelled result.
\<close>

datatype printed = Query pystr | Labeled_Result pystr

text \<open>
  The outer loop \<^verbatim>\<open>for i, query in enumerate(queries)\<close>. The state is what has been
  printed; an exception ends the loop and is returned with what was printed before it.
\<close>

fun query_loop ::
  "(int \<rightharpoonup> pystr) \<Rightarrow> int list list \<Rightarrow> real list list \<Rightarrow> nat \<Rightarrow> pystr list
     \<Rightarrow> printed list \<Rightarrow> printed list \<times> error option" where
  "query_loop labels_dict preds subtokens_mask i [] out = (out, None)"
| "query_loop labels_dict preds subtokens_mask i (query # qs) out =
     (let out = out @ [Query query]
      in case labeled_result labels_dict preds subtokens_mask i query of
           Inl e \<Rightarrow> (out, Some e)
         | Inr r \<Rightarrow>
             query_loop labels_dict preds subtokens_mask (Suc i) qs (out @ [Labeled_Result r]))"

text \<open>
  The whole cell. \<^verbatim>\<open>get_vocab\<close> belongs to the framework and reads the file system: it
  is a parameter, which either raises or returns the dictionary from label ids to
  label strings.
\<close>

definition display_results ::
  "(pystr \<Rightarrow> error + (int \<rightharpoonup> pystr)) \<Rightarrow> int list list \<Rightarrow> real list list \<Rightarrow> pystr list
     \<Rightarrow> printed list \<times> error option" where
  "display_results get_vocab preds subtokens_mask qs =
     (case get_vocab (DATA_DIR @ py_str ''label_ids.csv'') of
        Inl e \<Rightarrow> ([], Some e)
      | Inr labels_dict \<Rightarrow> query_loop labels_dict preds subtokens_mask 0 qs [])"

text \<open>
  The label vocabulary of the course data, as the evaluation report printed after
  training lists it: \<^verbatim>\<open>O (label id: 0)\<close>, \<^verbatim>\<open>B (label id: 1)\<close>, \<^verbatim>\<open>I (label id: 2)\<close>.
\<close>

definition iob_labels :: "int \<rightharpoonup> pystr" where
  "iob_labels = map_of [(0, py_str ''O''), (1, py_str ''B''), (2, py_str ''I'')]"

section \<open>The training cell\<close>

text \<open>
  \<^verbatim>\<open>reset_trainer(nf)\<close> followed by \<^verbatim>\<open>nf.train(...)\<close>. Both calls belong to the
  framework; each is a parameter, the outcome of the call: an exception or a return.
\<close>

definition train_cell :: "error + unit \<Rightarrow> error + unit \<Rightarrow> error + unit" where
  "train_cell reset_trainer train = bind_err reset_trainer (\<lambda>_. train)"

section \<open>Notions of the specification\<close>

text \<open>
  The annotation the labelled output carries after a word whose label is \<open>l\<close>: nothing
  for the none label, the label in brackets otherwise.
\<close>

definition tag :: "pystr \<Rightarrow> pystr" where
  "tag l = (if l = NONE_LABEL then [] else py_str ''['' @ l @ py_str '']'')"

text \<open>
  Stripping the bracketed annotations from a string: every stretch from a \<^verbatim>\<open>[\<close> to the
  next \<^verbatim>\<open>]\<close> is removed; a \<^verbatim>\<open>[\<close> that is never closed stays.
\<close>

function strip_tags :: "pystr \<Rightarrow> pystr" where
  "strip_tags [] = []"
| "strip_tags (c # cs) =
     (if c = 91 \<and> 93 \<in> set cs then strip_tags (tl (dropWhile (\<lambda>d. d \<noteq> 93) cs))
      else c # strip_tags cs)"
  by pat_completeness auto
termination
  by (relation "measure length")
     (auto simp: less_Suc_eq_le intro: le_trans [OF diff_le_self length_dropWhile_le])

text \<open>
  Modelled from the spec: the label encoding of the framework's token classification
  dataset, which is not part of the repository. A sentence's tags are cut to the maximum
  length, mapped to their numeric ids, and padded to the maximum length with the id of
  the pad label.
\<close>

definition encode_labels :: "(pystr \<Rightarrow> int) \<Rightarrow> token_data_layer \<Rightarrow> pystr list \<Rightarrow> int list" where
  "encode_labels ids dl tags =
     (let kept = take (max_seq_length dl) tags
      in map ids kept @ replicate (max_seq_length dl - length kept) (ids (pad_label dl)))"

section \<open>Configuration\<close>

lemma py_str_inject: "py_str a = py_str b \<longleftrightarrow> a = b"
  by (simp add: py_str_def inj_on_def inj_map_eq_map)

text \<open>
  Claim C10. For every string \<open>text\<close>, \<^verbatim>\<open>add_brackets(text, add)\<close> is \<open>text\<close> between
  \<^verbatim>\<open>[\<close> and \<^verbatim>\<open>]\<close> when \<open>add\<close> is true and \<open>text\<close> itself when \<open>add\<close> is false; a call
  without \<open>add\<close> behaves as one with \<open>add\<close> true.
\<close>

theorem add_brackets_cases:
  "add_brackets text (Some True) = py_str ''['' @ text @ py_str '']'' \<and>
   add_brackets text (Some False) = text \<and>
   add_brackets text None = add_brackets text (Some True)"
  by (simp add: add_brackets_def)

text \<open>
  Claim C4. Each of the dictionaries \<open>PRETRAINED_MODEL_NAME\<close>, \<open>DO_LOWER_CASE\<close>,
  \<open>NGC_CHECKPOINT\<close> and \<open>NGC_CONFIG\<close> has a value at both model types: \<^verbatim>\<open>biobert\<close> is
  the cased base model \<^verbatim>\<open>bert-base-cased\<close>, \<^verbatim>\<open>biomegatron\<close> the lower-cased
  \<^verbatim>\<open>megatron-bert-uncased\<close>, and every checkpoint and configuration path starts with
  \<open>CHECKPOINTS_PATH\<close>.
\<close>

theorem model_configuration:
  "PRETRAINED_MODEL_NAME (py_str ''biobert'') = Some (py_str ''bert-base-cased'') \<and>
   PRETRAINED_MODEL_NAME (py_str ''biomegatron'') = Some (py_str ''megatron-bert-uncased'') \<and>
   DO_LOWER_CASE (py_str ''biobert'') = Some False \<and>
   DO_LOWER_CASE (py_str ''biomegatron'') = Some True \<and>
   NGC_CHECKPOINT (py_str ''biobert'') = Some (CHECKPOINTS_PATH @ py_str ''biobert/BERT.pt'') \<and>
   NGC_CHECKPOINT (py_str ''biomegatron'') =
     Some (CHECKPOINTS_PATH @ py_str ''biomegatron/MegatronBERT.pt'') \<and>
   NGC_CONFIG (py_str ''biobert'') = Some (CHECKPOINTS_PATH @ py_str ''biobert/bert_config.json'') \<and>
   NGC_CONFIG (py_str ''biomegatron'') = Some (CHECKPOINTS_PATH @ py_str ''biomegatron/config.json'') \<and>
   prefix CHECKPOINTS_PATH (the (NGC_CHECKPOINT (py_str ''biobert''))) \<and>
   prefix CHECKPOINTS_PATH (the (NGC_CHECKPOINT (py_str ''biomegatron''))) \<and>
   prefix CHECKPOINTS_PATH (the (NGC_CONFIG (py_str ''biobert''))) \<and>
   prefix CHECKPOINTS_PATH (the (NGC_CONFIG (py_str ''biomegatron'')))"
  by (simp add: PRETRAINED_MODEL_NAME_def DO_LOWER_CASE_def NGC_CHECKPOINT_def NGC_CONFIG_def
      py_str_inject)

lemma tokenizer_biobert:
  "tokenizer MODEL_TYPE = Inr \<lparr>tokenizer_name = py_str ''nemobert'',
     pretrained_model_name = py_str ''bert-base-cased'', do_lower_case = False\<rparr>"
  by (simp add: tokenizer_def MODEL_TYPE_def bind_err_def dict_get_def
      PRETRAINED_MODEL_NAME_def DO_LOWER_CASE_def py_str_inject)

lemma join_data_dir:
  "os_path_join DATA_DIR (py_str ''text_train.txt'') =
     py_str ''/dli/task/data/NCBI_ner-3/text_train.txt''"
  "os_path_join DATA_DIR (py_str ''labels_train.txt'') =
     py_str ''/dli/task/data/NCBI_ner-3/labels_train.txt''"
  by (simp_all add: os_path_join_def DATA_DIR_def py_str_def suffix_def)

text \<open>
  Claim C7. The training data layer reads two files, the sentence file
  \<^verbatim>\<open>os.path.join(DATA_DIR, 'text_train.txt')\<close> and the label file
  \<^verbatim>\<open>os.path.join(DATA_DIR, 'labels_train.txt')\<close>; the inference data layer is given the
  list of queries itself, and its arguments hold no file.
\<close>

theorem input_files_and_queries:
  "(\<exists>dl. dl_train = Inr dl \<and>
      text_file dl = os_path_join DATA_DIR (py_str ''text_train.txt'') \<and>
      text_file dl = py_str ''/dli/task/data/NCBI_ner-3/text_train.txt'' \<and>
      label_file dl = os_path_join DATA_DIR (py_str ''labels_train.txt'') \<and>
      label_file dl = py_str ''/dli/task/data/NCBI_ner-3/labels_train.txt'') \<and>
   (\<exists>dl. dl_test qs = Inr dl \<and> queries dl = qs)"
  by (simp add: dl_train_def dl_test_def tokenizer_biobert bind_err_def
      BertTokenClassificationDataLayer_def join_data_dir)

section \<open>Splitting, stripping and joining\<close>

lemma py_str_chars:
  "py_str ''['' = [91]" "py_str '']'' = [93]" "py_str '' '' = [32]" "py_str ''O'' = [79]"
  by (simp_all add: py_str_def)

lemma split_empty: "dropWhile isspace s = [] \<Longrightarrow> split s = []"
  by (subst split.simps) (simp add: Let_def)

lemma split_nonempty:
  "dropWhile isspace s = t \<Longrightarrow> t \<noteq> [] \<Longrightarrow>
     split s = takeWhile nonspace t # split (dropWhile nonspace t)"
  by (subst split.simps) (simp add: Let_def)

lemma split_Nil: "split [] = []"
  by (simp add: split_empty)

lemma split_space_Cons: "isspace c \<Longrightarrow> split (c # s) = split s"
proof (cases "dropWhile isspace s = []")
  case True
  moreover assume "isspace c"
  ultimately show ?thesis by (simp add: split_empty)
next
  case False
  moreover assume "isspace c"
  ultimately show ?thesis
    by (simp add: split_nonempty [of "c # s" "dropWhile isspace s"]
        split_nonempty [of s "dropWhile isspace s"])
qed

lemma split_word_append:
  assumes "w \<noteq> []" and "\<forall>c\<in>set w. \<not> isspace c" and "s = [] \<or> isspace (hd s)"
  shows "split (w @ s) = w # split s"
proof -
  obtain c cs where w: "w = c # cs" using assms(1) by (cases w) auto
  have d: "dropWhile isspace (w @ s) = w @ s" using assms(2) w by simp
  have t: "takeWhile nonspace (w @ s) = w"
    using assms(2,3) by (cases s) (auto simp: takeWhile_append)
  have r: "dropWhile nonspace (w @ s) = s"
    using assms(2,3) by (cases s) (auto simp: dropWhile_append)
  have "w @ s \<noteq> []" using w by simp
  from split_nonempty [OF d this] show ?thesis
    by (simp only: t r)
qed

lemma split_word: "w \<noteq> [] \<Longrightarrow> \<forall>c\<in>set w. \<not> isspace c \<Longrightarrow> split w = [w]"
  using split_word_append [of w "[]"] by (simp add: split_Nil)

lemma split_words:
  "w \<in> set (split s) \<Longrightarrow> w \<noteq> [] \<and> (\<forall>c\<in>set w. \<not> isspace c)"
proof (induction s rule: split.induct)
  case (1 s)
  let ?t = "dropWhile isspace s"
  show ?case
  proof (cases "?t = []")
    case True
    with "1.prems" show ?thesis by (simp add: split_empty)
  next
    case False
    then have hd: "\<not> isspace (hd ?t)" by (rule hd_dropWhile)
    from "1.prems" split_nonempty [OF refl False]
    have "w = takeWhile nonspace ?t \<or> w \<in> set (split (dropWhile nonspace ?t))"
      by simp
    then show ?thesis
    proof
      assume w: "w = takeWhile nonspace ?t"
      have "w \<noteq> []" using w False hd by (simp add: takeWhile_eq_Nil_iff)
      moreover have "\<forall>c\<in>set w. \<not> isspace c" using w by (auto dest: set_takeWhileD)
      ultimately show ?thesis by simp
    next
      assume "w \<in> set (split (dropWhile nonspace ?t))"
      with "1.IH" [OF refl False] show ?thesis by simp
    qed
  qed
qed

lemma isspace_32: "isspace 32"
  by (simp add: isspace_def)

lemma split_spaced_words:
  assumes "\<forall>w\<in>set ws. w \<noteq> [] \<and> (\<forall>c\<in>set w. \<not> isspace c)"
  shows "split (concat (map (\<lambda>w. w @ [32]) ws) @ s) = ws @ split s"
  using assms
proof (induction ws)
  case Nil
  then show ?case by simp
next
  case (Cons w ws)
  let ?rest = "concat (map (\<lambda>w. w @ [32]) ws) @ s"
  have "split (w @ (32 # ?rest)) = w # split (32 # ?rest)"
    using Cons.prems by (intro split_word_append) (auto simp: isspace_32)
  also have "split (32 # ?rest) = split ?rest"
    by (simp add: split_space_Cons isspace_32)
  also have "split ?rest = ws @ split s"
    using Cons by simp
  finally show ?case by simp
qed

lemma strip_Nil: "strip [] = []"
  by (simp add: strip_def)

lemma strip_trailing_space:
  assumes "s \<noteq> []" "\<not> isspace (hd s)" "\<not> isspace (last s)" "isspace d"
  shows "strip (s @ [d]) = s"
proof -
  obtain c cs where s: "s = c # cs" using assms(1) by (cases s) auto
  have "dropWhile isspace (s @ [d]) = s @ [d]" using s assms(2) by simp
  moreover have "dropWhile isspace (rev (s @ [d])) = rev s"
    using assms(1,3,4) by (simp add: dropWhile_eq_self_iff hd_rev)
  ultimately show ?thesis by (simp add: strip_def)
qed

lemma join_snoc: "join sep (us @ [u]) = concat (map (\<lambda>v. v @ sep) us) @ u"
proof (induction us)
  case Nil
  show ?case by simp
next
  case (Cons v us)
  then show ?case by (cases "us @ [u]") auto
qed

lemma strip_spaced_units:
  assumes "\<forall>u\<in>set us. u \<noteq> [] \<and> \<not> isspace (hd u) \<and> \<not> isspace (last u)"
  shows "strip (concat (map (\<lambda>u. u @ [32]) us)) = join [32] us"
proof (cases us rule: rev_cases)
  case Nil
  then show ?thesis by (simp add: strip_Nil)
next
  case (snoc vs u)
  let ?body = "concat (map (\<lambda>u. u @ [32]) vs) @ u"
  have u: "u \<noteq> []" "\<not> isspace (hd u)" "\<not> isspace (last u)" using assms snoc by auto
  have hd: "\<not> isspace (hd ?body)"
  proof (cases vs)
    case Nil
    then show ?thesis using u by simp
  next
    case (Cons v vs')
    then have "v \<noteq> []" "\<not> isspace (hd v)" using assms snoc by auto
    then show ?thesis using Cons by simp
  qed
  have "strip (?body @ [32]) = ?body"
    using u hd by (intro strip_trailing_space) (auto simp: isspace_32)
  then show ?thesis using snoc by (simp add: join_snoc)
qed

lemma split_join:
  assumes "\<forall>w\<in>set ws. w \<noteq> [] \<and> (\<forall>c\<in>set w. \<not> isspace c)"
  shows "split (join [32] ws) = ws"
proof (cases ws rule: rev_cases)
  case Nil
  then show ?thesis by (simp add: split_Nil)
next
  case (snoc vs w)
  then have "split (join [32] ws) = vs @ split w"
    using assms by (simp add: join_snoc split_spaced_words)
  then show ?thesis using assms snoc by (simp add: split_word)
qed

section \<open>Removing the annotations\<close>

lemma strip_tags_plain: "91 \<notin> set w \<Longrightarrow> strip_tags (w @ s) = w @ strip_tags s"
  by (induction w) auto

lemma strip_tags_bracketed:
  assumes "93 \<notin> set l"
  shows "strip_tags (91 # l @ 93 # s) = strip_tags s"
proof -
  have "dropWhile (\<lambda>d. d \<noteq> 93) (l @ 93 # s) = 93 # s"
    using assms by (induction l) auto
  then show ?thesis by simp
qed

lemma strip_tags_tag: "93 \<notin> set l \<Longrightarrow> strip_tags (tag l @ s) = strip_tags s"
  by (simp add: tag_def py_str_chars strip_tags_bracketed del: strip_tags.simps)

lemma strip_tags_pieces:
  assumes "length ls = length ws" "\<forall>w\<in>set ws. 91 \<notin> set w" "\<forall>l\<in>set ls. 93 \<notin> set l"
  shows "strip_tags (concat (map2 (\<lambda>w l. w @ tag l @ [32]) ws ls) @ s) =
         concat (map (\<lambda>w. w @ [32]) ws) @ strip_tags s"
  using assms
proof (induction ls ws rule: list_induct2)
  case Nil
  show ?case by simp
next
  case (Cons l ls w ws)
  have "strip_tags (32 # t) = 32 # strip_tags t" for t by simp
  with Cons show ?case
    by (simp add: strip_tags_plain strip_tags_tag del: strip_tags.simps)
qed

section \<open>The labelling loop\<close>

lemma annotate_tag:
  "(if label \<noteq> NONE_LABEL then out @ add_brackets label None else out) = out @ tag label"
  by (simp add: tag_def add_brackets_def)

lemma label_words_Cons:
  "label_words ld pred j (w # ws) out =
     (if j < length pred
      then (case ld (pred ! j) of
              None \<Rightarrow> Inl KeyError
            | Some l \<Rightarrow> label_words ld pred (Suc j) ws (out @ w @ tag l @ [32]))
      else Inl IndexError)"
  by (simp add: bind_err_def py_index_def dict_get_def annotate_tag py_str_chars
      split: option.splits del: if_split cong: if_cong)

declare label_words.simps(2) [simp del]

lemma all_less_Suc_shift: "(\<forall>k<Suc n. P k) \<longleftrightarrow> P 0 \<and> (\<forall>k<n. P (Suc k))"
  by (auto simp: less_Suc_eq_0_disj)

lemma label_words_Inr:
  "label_words ld pred j ws out = Inr r \<longleftrightarrow>
     (\<exists>ls. length ls = length ws \<and>
           (\<forall>k<length ws. j + k < length pred \<and> ld (pred ! (j + k)) = Some (ls ! k)) \<and>
           r = out @ concat (map2 (\<lambda>w l. w @ tag l @ [32]) ws ls))"
proof (induction ws arbitrary: j out)
  case Nil
  then show ?case by auto
next
  case (Cons w ws)
  show ?case (is "?L \<longleftrightarrow> ?R")
  proof
    assume L: ?L
    then have j: "j < length pred" by (simp add: label_words_Cons split: if_splits)
    with L obtain l where l: "ld (pred ! j) = Some l"
      and rec: "label_words ld pred (Suc j) ws (out @ w @ tag l @ [32]) = Inr r"
      by (auto simp: label_words_Cons split: option.splits)
    from rec Cons.IH obtain ls where ls: "length ls = length ws"
      "\<forall>k<length ws. Suc j + k < length pred \<and> ld (pred ! (Suc j + k)) = Some (ls ! k)"
      "r = (out @ w @ tag l @ [32]) @ concat (map2 (\<lambda>w l. w @ tag l @ [32]) ws ls)"
      by blast
    show ?R
      by (rule exI [of _ "l # ls"]) (use j l ls in \<open>simp add: all_less_Suc_shift\<close>)
  next
    assume ?R
    then obtain ls' where ls': "length ls' = Suc (length ws)"
      "\<forall>k<Suc (length ws). j + k < length pred \<and> ld (pred ! (j + k)) = Some (ls' ! k)"
      "r = out @ concat (map2 (\<lambda>w l. w @ tag l @ [32]) (w # ws) ls')"
      by auto
    from ls'(1) obtain l ls where c: "ls' = l # ls" "length ls = length ws"
      by (auto simp: length_Suc_conv)
    from ls'(2) c have j: "j < length pred" "ld (pred ! j) = Some l"
      and rest: "\<forall>k<length ws. Suc j + k < length pred \<and> ld (pred ! (Suc j + k)) = Some (ls ! k)"
      by (simp_all add: all_less_Suc_shift)
    have "label_words ld pred (Suc j) ws (out @ w @ tag l @ [32]) = Inr r"
      unfolding Cons.IH using c rest ls'(3) by (intro exI [of _ ls]) simp
    then show ?L using j by (simp add: label_words_Cons)
  qed
qed

lemma label_words_KeyError:
  "k < length ws \<Longrightarrow> j + k < length pred \<Longrightarrow> ld (pred ! (j + k)) = None \<Longrightarrow>
     label_words ld pred j ws out = Inl KeyError"
proof (induction ws arbitrary: j k out)
  case Nil
  then show ?case by simp
next
  case (Cons w ws)
  show ?case
  proof (cases k)
    case 0
    with Cons.prems show ?thesis by (simp add: label_words_Cons)
  next
    case (Suc k')
    with Cons.prems have "j < length pred" by simp
    moreover have "label_words ld pred (Suc j) ws out' = Inl KeyError" for out'
      using Cons.IH [of k' "Suc j"] Cons.prems Suc by simp
    ultimately show ?thesis by (simp add: label_words_Cons split: option.splits)
  qed
qed

lemma label_words_IndexError:
  "j \<le> length pred \<Longrightarrow> length pred < j + length ws \<Longrightarrow>
   \<forall>k. j + k < length pred \<longrightarrow> ld (pred ! (j + k)) \<noteq> None \<Longrightarrow>
     label_words ld pred j ws out = Inl IndexError"
proof (induction ws arbitrary: j out)
  case Nil
  then show ?case by simp
next
  case (Cons w ws)
  show ?case
  proof (cases "j < length pred")
    case False
    then show ?thesis by (simp add: label_words_Cons)
  next
    case True
    from Cons.prems(3) [rule_format, of 0] True obtain l where l: "ld (pred ! j) = Some l"
      by auto
    have "\<forall>k. Suc j + k < length pred \<longrightarrow> ld (pred ! (Suc j + k)) \<noteq> None"
      using Cons.prems(3) [rule_format, of "Suc _"] by simp
    then have "label_words ld pred (Suc j) ws out' = Inl IndexError" for out'
      using Cons.IH [of "Suc j"] True Cons.prems(2) by simp
    with True l show ?thesis by (simp add: label_words_Cons)
  qed
qed

lemma set_split_subset: "w \<in> set (split s) \<Longrightarrow> set w \<subseteq> set s"
proof (induction s rule: split.induct)
  case (1 s)
  let ?t = "dropWhile isspace s"
  show ?case
  proof (cases "?t = []")
    case True
    with "1.prems" show ?thesis by (simp add: split_empty)
  next
    case False
    from "1.prems" split_nonempty [OF refl False]
    have "w = takeWhile nonspace ?t \<or> w \<in> set (split (dropWhile nonspace ?t))"
      by simp
    then show ?thesis
    proof
      assume "w = takeWhile nonspace ?t"
      then show ?thesis by (auto dest!: set_takeWhileD set_dropWhileD)
    next
      assume "w \<in> set (split (dropWhile nonspace ?t))"
      with "1.IH" [OF refl False] show ?thesis by (auto dest!: set_dropWhileD)
    qed
  qed
qed

lemma set_strip_subset: "set (strip s) \<subseteq> set s"
  by (auto simp: strip_def dest!: set_dropWhileD)

lemma label_query_Inr:
  "label_query ld pred query = Inr output \<longleftrightarrow>
     (\<exists>ls. length ls = length (split (strip query)) \<and>
           (\<forall>j<length (split (strip query)). j < length pred \<and> ld (pred ! j) = Some (ls ! j)) \<and>
           output = concat (map2 (\<lambda>w l. w @ tag l @ [32]) (split (strip query)) ls))"
  by (simp add: label_query_def label_words_Inr)

lemma nonspace_brackets: "\<not> isspace 91" "\<not> isspace 93"
  by (simp_all add: isspace_def)

lemma unit_shape:
  assumes "w \<noteq> []" "\<forall>c\<in>set w. \<not> isspace c"
  shows "w @ tag l \<noteq> [] \<and> \<not> isspace (hd (w @ tag l)) \<and> \<not> isspace (last (w @ tag l))"
  using assms by (cases w) (auto simp: tag_def py_str_chars nonspace_brackets)

lemma pieces_units:
  "map2 (\<lambda>w l. w @ tag l @ [32]) ws ls = map (\<lambda>u. u @ [32]) (map2 (\<lambda>w l. w @ tag l) ws ls)"
  by auto

lemma strip_pieces:
  assumes "\<forall>w\<in>set ws. w \<noteq> [] \<and> (\<forall>c\<in>set w. \<not> isspace c)"
  shows "strip (concat (map2 (\<lambda>w l. w @ tag l @ [32]) ws ls)) =
         join [32] (map2 (\<lambda>w l. w @ tag l) ws ls)"
  unfolding pieces_units
proof (rule strip_spaced_units, rule ballI)
  fix u assume "u \<in> set (map2 (\<lambda>w l. w @ tag l) ws ls)"
  then obtain w l where "u = w @ tag l" "w \<in> set ws"
    by (auto dest: set_zip_leftD)
  with assms unit_shape [of w l] show "u \<noteq> [] \<and> \<not> isspace (hd u) \<and> \<not> isspace (last u)"
    by blast
qed

lemma strip_tags_units:
  assumes "length ls = length ws" "\<forall>w\<in>set ws. 91 \<notin> set w" "\<forall>l\<in>set ls. 93 \<notin> set l"
  shows "strip_tags (join [32] (map2 (\<lambda>w l. w @ tag l) ws ls)) = join [32] ws"
proof (cases ws rule: rev_cases)
  case Nil
  then show ?thesis by simp
next
  case (snoc vs w)
  with assms(1) obtain ks l where ls: "ls = ks @ [l]" "length ks = length vs"
    by (cases ls rule: rev_cases) auto
  have "map2 (\<lambda>w l. w @ tag l) ws ls = map2 (\<lambda>w l. w @ tag l) vs ks @ [w @ tag l]"
    using snoc ls by simp
  then have "join [32] (map2 (\<lambda>w l. w @ tag l) ws ls) =
             concat (map2 (\<lambda>w l. w @ tag l @ [32]) vs ks) @ (w @ tag l)"
    by (simp add: join_snoc pieces_units del: map_map)
  also have "strip_tags \<dots> = concat (map (\<lambda>w. w @ [32]) vs) @ strip_tags (w @ tag l)"
    using assms snoc ls by (intro strip_tags_pieces) auto
  also have "strip_tags (w @ tag l) = w"
    using assms snoc ls strip_tags_plain [of w "tag l @ []"] strip_tags_tag [of l "[]"]
    by simp
  finally show ?thesis using snoc by (simp add: join_snoc)
qed

text \<open>
  Claim C1, as amended. When the labelling of a query completes, the query holds no
  \<^verbatim>\<open>[\<close> and no label of the dictionary holds a \<^verbatim>\<open>]\<close>, the output keeps the words
  in their order: removing the bracketed annotations from the output (or from the
  printed, stripped output) and splitting at whitespace gives the words of the query,
  \<^verbatim>\<open>query.strip().split()\<close>.
\<close>

theorem word_order_preserved:
  assumes "label_query ld pred query = Inr output"
    and "91 \<notin> set query"
    and "\<forall>l\<in>ran ld. 93 \<notin> set l"
  shows "split (strip_tags output) = split (strip query) \<and>
         split (strip_tags (strip output)) = split (strip query)"
proof -
  let ?ws = "split (strip query)"
  from assms(1) obtain ls where ls: "length ls = length ?ws"
    "\<forall>j<length ?ws. j < length pred \<and> ld (pred ! j) = Some (ls ! j)"
    "output = concat (map2 (\<lambda>w l. w @ tag l @ [32]) ?ws ls)"
    unfolding label_query_Inr by blast
  have good: "\<forall>w\<in>set ?ws. w \<noteq> [] \<and> (\<forall>c\<in>set w. \<not> isspace c)"
    using split_words by blast
  have plain: "\<forall>w\<in>set ?ws. 91 \<notin> set w"
    using assms(2) set_split_subset set_strip_subset by blast
  have closed: "\<forall>l\<in>set ls. 93 \<notin> set l"
  proof
    fix l assume "l \<in> set ls"
    then obtain j where "j < length ls" "ls ! j = l" by (auto simp: in_set_conv_nth)
    with ls(1,2) have "ld (pred ! j) = Some l" by simp
    then have "l \<in> ran ld" by (auto simp: ran_def)
    with assms(3) show "93 \<notin> set l" by blast
  qed
  have "strip_tags output = concat (map (\<lambda>w. w @ [32]) ?ws)"
    using strip_tags_pieces [OF ls(1) plain closed, of "[]"] ls(3) by simp
  then have a: "split (strip_tags output) = ?ws"
    using split_spaced_words [OF good, of "[]"] by (simp add: split_Nil)
  have "strip output = join [32] (map2 (\<lambda>w l. w @ tag l) ?ws ls)"
    unfolding ls(3) using good by (rule strip_pieces)
  then have "strip_tags (strip output) = join [32] ?ws"
    using strip_tags_units [OF ls(1) plain closed] by simp
  then have b: "split (strip_tags (strip output)) = ?ws"
    using split_join [OF good] by simp
  from a b show ?thesis ..
qed

text \<open>
  Claim C2. When the labelling of a query completes, the output is the sequence of its
  words, each followed by its annotation and one space. The label of the \<open>j\<close>-th word
  is \<^verbatim>\<open>labels_dict[pred[j]]\<close>; the annotation is empty when that label is the none label
  \<^verbatim>\<open>O\<close>, and the label in brackets otherwise. The printed result is the same
  sequence with single spaces between the annotated words.
\<close>

theorem tags_only_on_labelled_words:
  assumes "label_query labels_dict pred query = Inr output"
  shows "\<exists>ls. length ls = length (split (strip query)) \<and>
           (\<forall>j<length (split (strip query)).
              j < length pred \<and> labels_dict (pred ! j) = Some (ls ! j)) \<and>
           output = concat (map2
             (\<lambda>w l. w @ (if l = NONE_LABEL then [] else py_str ''['' @ l @ py_str '']'') @ py_str '' '')
             (split (strip query)) ls) \<and>
           strip output = join (py_str '' '') (map2
             (\<lambda>w l. w @ (if l = NONE_LABEL then [] else py_str ''['' @ l @ py_str '']''))
             (split (strip query)) ls)"
proof -
  let ?ws = "split (strip query)"
  from assms obtain ls where ls: "length ls = length ?ws"
    "\<forall>j<length ?ws. j < length pred \<and> labels_dict (pred ! j) = Some (ls ! j)"
    "output = concat (map2 (\<lambda>w l. w @ tag l @ [32]) ?ws ls)"
    unfolding label_query_Inr by blast
  have good: "\<forall>w\<in>set ?ws. w \<noteq> [] \<and> (\<forall>c\<in>set w. \<not> isspace c)"
    using split_words by blast
  have "strip output = join [32] (map2 (\<lambda>w l. w @ tag l) ?ws ls)"
    unfolding ls(3) using good by (rule strip_pieces)
  with ls show ?thesis
    unfolding tag_def py_str_chars by blast
qed

text \<open>
  Claim C9. If the label selected for every word of a query is \<^verbatim>\<open>O\<close>, the labelling
  completes and the printed result \<^verbatim>\<open>output.strip()\<close> is the words of the query joined
  by single spaces, \<^verbatim>\<open>' '.join(query.strip().split())\<close>.
\<close>

theorem all_outside_is_identity:
  assumes "\<forall>j<length (split (strip query)).
             j < length pred \<and> labels_dict (pred ! j) = Some NONE_LABEL"
  shows "\<exists>output. label_query labels_dict pred query = Inr output \<and>
           strip output = join (py_str '' '') (split (strip query))"
proof -
  let ?ws = "split (strip query)"
  let ?ls = "replicate (length ?ws) NONE_LABEL"
  let ?out = "concat (map2 (\<lambda>w l. w @ tag l @ [32]) ?ws ?ls)"
  have good: "\<forall>w\<in>set ?ws. w \<noteq> [] \<and> (\<forall>c\<in>set w. \<not> isspace c)"
    using split_words by blast
  have run: "label_query labels_dict pred query = Inr ?out"
    unfolding label_query_Inr using assms by (intro exI [of _ ?ls]) simp
  have "map2 (\<lambda>w l. w @ tag l) ?ws ?ls = ?ws"
    by (simp add: map_idI zip_replicate2 tag_def)
  then have "strip ?out = join [32] ?ws"
    using strip_pieces [OF good, of ?ls] by simp
  with run show ?thesis by (simp add: py_str_chars)
qed

text \<open>Evaluation of the model on concrete inputs.\<close>

lemmas eval_str = py_str_def isspace_def strip_def split.simps
lemmas eval_label = label_query_def label_words_Cons tag_def NONE_LABEL_def iob_labels_def

text \<open>
  The claim C1 as stated fails on a query with brackets of its own: the words
  \<^verbatim>\<open>[\<close>, \<^verbatim>\<open>1\<close> and \<^verbatim>\<open>]\<close> of the query, all labelled \<^verbatim>\<open>O\<close>, are removed with the
  annotations. No other way of removing annotations would do for every query: the
  one-word queries \<^verbatim>\<open>a[B]\<close>, labelled \<^verbatim>\<open>O\<close>, and \<^verbatim>\<open>a\<close>, labelled \<^verbatim>\<open>B\<close>, have the
  same output.
\<close>

theorem word_order_counterexample:
  "label_query iob_labels [0, 0, 0, 0] (py_str ''see [ 1 ]'') = Inr (py_str ''see [ 1 ] '') \<and>
   split (strip_tags (py_str ''see [ 1 ] '')) = [py_str ''see''] \<and>
   split (strip (py_str ''see [ 1 ]'')) = [py_str ''see'', py_str ''['', py_str ''1'', py_str '']''] \<and>
   split (strip_tags (py_str ''see [ 1 ] '')) \<noteq> split (strip (py_str ''see [ 1 ]'')) \<and>
   label_query iob_labels [0] (py_str ''a[B]'') = Inr (py_str ''a[B] '') \<and>
   label_query iob_labels [1] (py_str ''a'') = Inr (py_str ''a[B] '') \<and>
   split (strip (py_str ''a[B]'')) \<noteq> split (strip (py_str ''a''))"
  by (simp add: eval_str eval_label)

lemma iob_labels_closed: "\<forall>l\<in>ran iob_labels. 93 \<notin> set l"
  by (auto simp: ran_def iob_labels_def py_str_def split: if_splits)

theorem word_order_witness:
  "label_query iob_labels [0, 1, 2] (py_str '' no ovarian  cancer '') =
     Inr (py_str ''no ovarian[B] cancer[I] '') \<and>
   91 \<notin> set (py_str '' no ovarian  cancer '') \<and>
   split (strip_tags (py_str ''no ovarian[B] cancer[I] '')) =
     split (strip (py_str '' no ovarian  cancer '')) \<and>
   split (strip_tags (strip (py_str ''no ovarian[B] cancer[I] ''))) =
     split (strip (py_str '' no ovarian  cancer ''))"
proof -
  have run: "label_query iob_labels [0, 1, 2] (py_str '' no ovarian  cancer '') =
     Inr (py_str ''no ovarian[B] cancer[I] '')"
    by (simp add: eval_str eval_label)
  have plain: "91 \<notin> set (py_str '' no ovarian  cancer '')"
    by (simp add: py_str_def)
  from word_order_preserved [OF run plain iob_labels_closed] run plain
  show ?thesis by blast
qed

theorem tags_witness:
  "label_query iob_labels [0, 1, 2] (py_str '' no ovarian  cancer '') =
     Inr (py_str ''no ovarian[B] cancer[I] '') \<and>
   (\<exists>ls. length ls = length (split (strip (py_str '' no ovarian  cancer ''))) \<and>
           (\<forall>j<length (split (strip (py_str '' no ovarian  cancer ''))).
              j < length [0, 1, 2::int] \<and> iob_labels ([0, 1, 2] ! j) = Some (ls ! j)) \<and>
           py_str ''no ovarian[B] cancer[I] '' = concat (map2
             (\<lambda>w l. w @ (if l = NONE_LABEL then [] else py_str ''['' @ l @ py_str '']'') @ py_str '' '')
             (split (strip (py_str '' no ovarian  cancer ''))) ls) \<and>
           strip (py_str ''no ovarian[B] cancer[I] '') = join (py_str '' '') (map2
             (\<lambda>w l. w @ (if l = NONE_LABEL then [] else py_str ''['' @ l @ py_str '']''))
             (split (strip (py_str '' no ovarian  cancer ''))) ls))"
proof -
  have run: "label_query iob_labels [0, 1, 2] (py_str '' no ovarian  cancer '') =
     Inr (py_str ''no ovarian[B] cancer[I] '')"
    by (simp add: eval_str eval_label)
  from tags_only_on_labelled_words [OF run] run show ?thesis by blast
qed

theorem all_outside_witness:
  "label_query iob_labels [0, 0, 0] (py_str '' no ovarian  cancer '') =
     Inr (py_str ''no ovarian cancer '') \<and>
   strip (py_str ''no ovarian cancer '') = py_str ''no ovarian cancer'' \<and>
   join (py_str '' '') (split (strip (py_str '' no ovarian  cancer ''))) = py_str ''no ovarian cancer''"
proof -
  have words: "split (strip (py_str '' no ovarian  cancer '')) =
      [py_str ''no'', py_str ''ovarian'', py_str ''cancer'']"
    by (simp add: eval_str)
  have "\<forall>j<length (split (strip (py_str '' no ovarian  cancer ''))).
          j < length [0, 0, 0::int] \<and> iob_labels ([0, 0, 0] ! j) = Some NONE_LABEL"
    unfolding words by (simp add: iob_labels_def NONE_LABEL_def nth_Cons split: nat.splits)
  from all_outside_is_identity [OF this]
  obtain out where o: "label_query iob_labels [0, 0, 0] (py_str '' no ovarian  cancer '') = Inr out"
    "strip out = join (py_str '' '') (split (strip (py_str '' no ovarian  cancer '')))"
    by blast
  have run: "label_query iob_labels [0, 0, 0] (py_str '' no ovarian  cancer '') =
     Inr (py_str ''no ovarian cancer '')"
    by (simp add: eval_str eval_label)
  with o(1) have "out = py_str ''no ovarian cancer ''" by simp
  moreover have "strip (py_str ''no ovarian cancer '') = py_str ''no ovarian cancer''"
    by (simp add: eval_str)
  ultimately show ?thesis using o(2) run by simp
qed

section \<open>Queries longer than their filtered predictions\<close>

lemma length_mask_filter:
  "length xs = length ms \<Longrightarrow>
     length (filter snd (zip xs (map P ms))) = length (filter P ms)"
  by (induction xs ms rule: list_induct2) auto

lemma mask_filter_zip:
  "map fst (filter snd (zip xs (map P ms))) = map fst (filter (\<lambda>(x, m). P m) (zip xs ms))"
  by (induction xs ms rule: list_induct2') auto

lemma filtered_pred_Inr:
  "filtered_pred preds subtokens_mask i = Inr pred \<longleftrightarrow>
     i < length preds \<and> i < length subtokens_mask \<and>
     length (subtokens_mask ! i) = length (preds ! i) \<and>
     pred = map fst (filter (\<lambda>(p, m). m > 0.5) (zip (preds ! i) (subtokens_mask ! i)))"
proof -
  define P where "P = (\<lambda>m::real. m > 0.5)"
  have fp: "filtered_pred preds subtokens_mask i =
      bind_err (py_index preds i) (\<lambda>row.
      bind_err (py_index subtokens_mask i) (\<lambda>mask. mask_select row (map P mask)))"
    unfolding P_def filtered_pred_def ..
  have "filtered_pred preds subtokens_mask i = Inr pred \<longleftrightarrow>
     i < length preds \<and> i < length subtokens_mask \<and>
     length (subtokens_mask ! i) = length (preds ! i) \<and>
     pred = map fst (filter (\<lambda>(p, m). P m) (zip (preds ! i) (subtokens_mask ! i)))"
    unfolding fp bind_err_def py_index_def mask_select_def mask_filter_zip by auto
  then show ?thesis unfolding P_def .
qed

lemma filtered_pred_length:
  assumes "filtered_pred preds subtokens_mask i = Inr pred"
  shows "length pred = length (filter (\<lambda>m. m > 0.5) (subtokens_mask ! i))"
proof -
  define P where "P = (\<lambda>m::real. m > 0.5)"
  from assms have "i < length preds \<and> i < length subtokens_mask \<and>
     length (subtokens_mask ! i) = length (preds ! i) \<and>
     pred = map fst (filter (\<lambda>(p, m). m > 0.5) (zip (preds ! i) (subtokens_mask ! i)))"
    unfolding filtered_pred_Inr .
  then have len': "length (subtokens_mask ! i) = length (preds ! i)"
    and pred: "pred = map fst (filter (\<lambda>(p, m). P m) (zip (preds ! i) (subtokens_mask ! i)))"
    unfolding P_def by blast+
  note len = len' [symmetric]
  have "length pred = length (filter P (subtokens_mask ! i))"
    unfolding pred mask_filter_zip [symmetric] length_map
    by (rule length_mask_filter [OF len])
  then show ?thesis unfolding P_def .
qed

lemma label_query_short:
  assumes "length pred < length (split (strip query))"
  shows "label_query ld pred query = Inl (if set pred \<subseteq> dom ld then IndexError else KeyError)"
proof (cases "set pred \<subseteq> dom ld")
  case True
  then have "\<forall>k. 0 + k < length pred \<longrightarrow> ld (pred ! (0 + k)) \<noteq> None"
    by (auto simp: subset_iff dom_def)
  from label_words_IndexError [OF _ _ this, of "split (strip query)" "[]"] assms True
  show ?thesis by (simp add: label_query_def)
next
  case False
  then obtain p where "p \<in> set pred" "ld p = None"
    by (auto simp: dom_def)
  then obtain k where k: "k < length pred" "ld (pred ! k) = None"
    by (auto simp: in_set_conv_nth)
  with assms have "k < length (split (strip query))" by simp
  from label_words_KeyError [OF this, of 0 pred ld "[]"] k False
  show ?thesis by (simp add: label_query_def)
qed

text \<open>
  Claim C8, as amended. The number of filtered predictions of the \<open>i\<close>-th query is the
  number of positions where \<^verbatim>\<open>subtokens_mask[i]\<close> exceeds 0.5. The labelling of the
  query completes only if it has at most that many words. If it has more, the loop
  raises: \<^verbatim>\<open>IndexError\<close> from \<^verbatim>\<open>pred[j]\<close> when every filtered prediction is a key of
  the label dictionary, \<^verbatim>\<open>KeyError\<close> from the first prediction that is not a key
  otherwise.
\<close>

theorem labelling_needs_enough_positions:
  assumes "filtered_pred preds subtokens_mask i = Inr pred"
  shows "length pred = length (filter (\<lambda>m. m > 0.5) (subtokens_mask ! i)) \<and>
         (\<forall>output. query_output labels_dict preds subtokens_mask i query = Inr output \<longrightarrow>
            length (split (strip query)) \<le> length pred) \<and>
         (length pred < length (split (strip query)) \<longrightarrow>
            query_output labels_dict preds subtokens_mask i query =
              Inl (if set pred \<subseteq> dom labels_dict then IndexError else KeyError))"
proof (intro conjI allI impI)
  show "length pred = length (filter (\<lambda>m. m > 0.5) (subtokens_mask ! i))"
    using assms by (rule filtered_pred_length)
next
  fix out
  assume "query_output labels_dict preds subtokens_mask i query = Inr out"
  with assms have "label_query labels_dict pred query = Inr out"
    by (simp add: query_output_def bind_err_def)
  then obtain ls where
    "\<forall>j<length (split (strip query)). j < length pred \<and> labels_dict (pred ! j) = Some (ls ! j)"
    unfolding label_query_Inr by blast
  then show "length (split (strip query)) \<le> length pred"
    by (cases "split (strip query)" rule: rev_cases) (auto simp: not_less)
next
  assume "length pred < length (split (strip query))"
  from label_query_short [OF this] assms
  show "query_output labels_dict preds subtokens_mask i query =
          Inl (if set pred \<subseteq> dom labels_dict then IndexError else KeyError)"
    by (simp add: query_output_def bind_err_def)
qed

lemmas eval_pred = filtered_pred_def query_output_def bind_err_def py_index_def
  mask_select_def dict_get_def

text \<open>
  The claim C8 as stated fails when a prediction is missing from the dictionary: the
  query has two words and one filtered prediction, and the loop raises \<^verbatim>\<open>KeyError\<close>
  at the first word, before \<^verbatim>\<open>pred[j]\<close> is out of range.
\<close>

theorem short_pred_counterexample:
  "filtered_pred [[1]] [[1]] 0 = Inr [1] \<and>
   split (strip (py_str ''a b'')) = [py_str ''a'', py_str ''b''] \<and>
   query_output (map_of [(0, py_str ''O'')]) [[1]] [[1]] 0 (py_str ''a b'') = Inl KeyError"
  by (simp add: eval_pred eval_str eval_label)

theorem short_pred_witness:
  "filtered_pred [[0, 1]] [[1, 0]] 0 = Inr [0] \<and>
   length [0::int] = length (filter (\<lambda>m. m > 0.5) ([[1, 0::real]] ! 0)) \<and>
   length [0::int] < length (split (strip (py_str ''a b''))) \<and>
   query_output iob_labels [[0, 1]] [[1, 0]] 0 (py_str ''a b'') = Inl IndexError"
proof -
  have sel: "filtered_pred [[0, 1]] [[1, 0]] 0 = Inr [0]"
    by (simp add: eval_pred)
  have short: "length [0::int] < length (split (strip (py_str ''a b'')))"
    by (simp add: eval_str)
  have keys: "set [0::int] \<subseteq> dom iob_labels"
    by (simp add: iob_labels_def)
  from labelling_needs_enough_positions [OF sel, of iob_labels "py_str ''a b''"] sel short keys
  show ?thesis by simp
qed

section \<open>From the logits to the labels\<close>

lemma map_err_Inr:
  "map_err f xs = Inr ys \<longleftrightarrow>
     length ys = length xs \<and> (\<forall>k<length xs. f (xs ! k) = Inr (ys ! k))"
proof (induction xs arbitrary: ys)
  case Nil
  then show ?case by auto
next
  case (Cons x xs)
  show ?case
  proof (cases ys)
    case Nil
    then show ?thesis by (auto simp: bind_err_def split: sum.splits)
  next
    case (Cons y ys')
    then show ?thesis
      using Cons.IH [of ys']
      by (auto simp: bind_err_def all_less_Suc_shift split: sum.splits)
  qed
qed

lemma gather_Inr:
  "gather (logits_batches, mask_batches) = Inr (preds, subtokens_mask) \<longleftrightarrow>
     logits_batches \<noteq> [] \<and> same_shape (map length) (concat logits_batches) \<and>
     mask_batches \<noteq> [] \<and> same_shape length (concat mask_batches) \<and>
     subtokens_mask = concat mask_batches \<and>
     argmax_axis2 (concat logits_batches) = Inr preds"
  by (auto simp: gather_def concatenate_def bind_err_def split: sum.splits if_splits)

lemma argmax_from_first_max:
  assumes "length pre = k" "p < k" "pre ! p = b"
    "\<forall>j<k. pre ! j \<le> b" "\<forall>j<p. pre ! j < b"
  shows "argmax_from b p k xs < k + length xs \<and>
         (\<forall>j<k + length xs. (pre @ xs) ! j \<le> (pre @ xs) ! argmax_from b p k xs) \<and>
         (\<forall>j<argmax_from b p k xs. (pre @ xs) ! j < (pre @ xs) ! argmax_from b p k xs)"
  using assms
proof (induction xs arbitrary: b p k pre)
  case Nil
  then show ?case by simp
next
  case (Cons x xs)
  show ?case
  proof (cases "b < x")
    case True
    have "argmax_from x k (Suc k) xs < Suc k + length xs \<and>
         (\<forall>j<Suc k + length xs. ((pre @ [x]) @ xs) ! j \<le> ((pre @ [x]) @ xs) ! argmax_from x k (Suc k) xs) \<and>
         (\<forall>j<argmax_from x k (Suc k) xs. ((pre @ [x]) @ xs) ! j < ((pre @ [x]) @ xs) ! argmax_from x k (Suc k) xs)"
    proof (rule Cons.IH)
      show "length (pre @ [x]) = Suc k" using Cons.prems by simp
      show "k < Suc k" by simp
      show "(pre @ [x]) ! k = x" using Cons.prems by (simp add: nth_append)
      show "\<forall>j<Suc k. (pre @ [x]) ! j \<le> x"
        using Cons.prems True by (auto simp: nth_append less_Suc_eq intro: order_trans less_imp_le)
      show "\<forall>j<k. (pre @ [x]) ! j < x"
        using Cons.prems True by (auto simp: nth_append intro: le_less_trans)
    qed
    with True show ?thesis by simp
  next
    case False
    have "argmax_from b p (Suc k) xs < Suc k + length xs \<and>
         (\<forall>j<Suc k + length xs. ((pre @ [x]) @ xs) ! j \<le> ((pre @ [x]) @ xs) ! argmax_from b p (Suc k) xs) \<and>
         (\<forall>j<argmax_from b p (Suc k) xs. ((pre @ [x]) @ xs) ! j < ((pre @ [x]) @ xs) ! argmax_from b p (Suc k) xs)"
    proof (rule Cons.IH)
      show "length (pre @ [x]) = Suc k" using Cons.prems by simp
      show "p < Suc k" using Cons.prems by simp
      show "(pre @ [x]) ! p = b" using Cons.prems by (simp add: nth_append)
      show "\<forall>j<Suc k. (pre @ [x]) ! j \<le> b"
        using Cons.prems False by (auto simp: nth_append less_Suc_eq)
      show "\<forall>j<p. (pre @ [x]) ! j < b"
        using Cons.prems by (auto simp: nth_append)
    qed
    with False show ?thesis by simp
  qed
qed

lemma argmax_first_max:
  assumes "argmax xs = Inr p"
  shows "0 \<le> p \<and> nat p < length xs \<and> (\<forall>j<length xs. xs ! j \<le> xs ! nat p) \<and>
         (\<forall>j<nat p. xs ! j < xs ! nat p)"
proof (cases xs)
  case Nil
  with assms show ?thesis by (simp add: argmax_def)
next
  case (Cons x rest)
  with assms have p: "p = int (argmax_from x 0 1 rest)" by (simp add: argmax_def)
  from argmax_from_first_max [of "[x]" 1 0 x rest] Cons p show ?thesis by simp
qed

text \<open>
  Claim C3. When the gathering cell and the labelling of the \<open>i\<close>-th query complete:
  \<open>preds\<close> is the argmax along the class axis of the concatenated logits, so that
  \<open>preds[i][k]\<close> is the first index of a largest class score at position \<open>k\<close> of row
  \<open>i\<close>; \<open>pred\<close> is \<open>preds[i]\<close> at the positions where \<open>subtokens_mask[i]\<close> (of the
  concatenated mask batches) exceeds 0.5; and the label attached to the \<open>j\<close>-th word of
  the query in the output is \<^verbatim>\<open>labels_dict[pred[j]]\<close>.
\<close>

theorem labels_from_masked_argmax:
  assumes "gather (logits_batches, mask_batches) = Inr (preds, subtokens_mask)"
    and "query_output labels_dict preds subtokens_mask i query = Inr output"
  shows "\<exists>pred ls.
    subtokens_mask = concat mask_batches \<and>
    length preds = length (concat logits_batches) \<and>
    i < length preds \<and> i < length subtokens_mask \<and>
    length (preds ! i) = length (concat logits_batches ! i) \<and>
    (\<forall>k<length (preds ! i). argmax (concat logits_batches ! i ! k) = Inr (preds ! i ! k)) \<and>
    (\<forall>k<length (preds ! i).
       0 \<le> preds ! i ! k \<and>
       nat (preds ! i ! k) < length (concat logits_batches ! i ! k) \<and>
       (\<forall>c<length (concat logits_batches ! i ! k).
          concat logits_batches ! i ! k ! c
            \<le> concat logits_batches ! i ! k ! nat (preds ! i ! k)) \<and>
       (\<forall>c<nat (preds ! i ! k).
          concat logits_batches ! i ! k ! c
            < concat logits_batches ! i ! k ! nat (preds ! i ! k))) \<and>
    length (subtokens_mask ! i) = length (preds ! i) \<and>
    pred = map fst (filter (\<lambda>(p, m). m > 0.5) (zip (preds ! i) (subtokens_mask ! i))) \<and>
    length ls = length (split (strip query)) \<and>
    (\<forall>j<length (split (strip query)).
       j < length pred \<and> labels_dict (pred ! j) = Some (ls ! j)) \<and>
    output = concat (map2
      (\<lambda>w l. w @ (if l = NONE_LABEL then [] else py_str ''['' @ l @ py_str '']'') @ py_str '' '')
      (split (strip query)) ls)"
proof -
  from assms(1) have mask: "subtokens_mask = concat mask_batches"
    and am: "map_err (map_err argmax) (concat logits_batches) = Inr preds"
    by (simp_all add: gather_Inr argmax_axis2_def)
  from am have len: "length preds = length (concat logits_batches)"
    and rows: "\<forall>r<length (concat logits_batches).
                 map_err argmax (concat logits_batches ! r) = Inr (preds ! r)"
    unfolding map_err_Inr by blast+
  from assms(2) obtain pred where sel: "filtered_pred preds subtokens_mask i = Inr pred"
    and run: "label_query labels_dict pred query = Inr output"
    by (auto simp: query_output_def bind_err_def split: sum.splits)
  from sel have i: "i < length preds" "i < length subtokens_mask"
    and ml: "length (subtokens_mask ! i) = length (preds ! i)"
    and pred: "pred = map fst (filter (\<lambda>(p, m). m > 0.5) (zip (preds ! i) (subtokens_mask ! i)))"
    unfolding filtered_pred_Inr by blast+
  from rows i len have "map_err argmax (concat logits_batches ! i) = Inr (preds ! i)"
    by simp
  then have row: "length (preds ! i) = length (concat logits_batches ! i)"
    "\<forall>k<length (preds ! i). argmax (concat logits_batches ! i ! k) = Inr (preds ! i ! k)"
    unfolding map_err_Inr by simp_all
  have largest: "\<forall>k<length (preds ! i).
       0 \<le> preds ! i ! k \<and>
       nat (preds ! i ! k) < length (concat logits_batches ! i ! k) \<and>
       (\<forall>c<length (concat logits_batches ! i ! k).
          concat logits_batches ! i ! k ! c
            \<le> concat logits_batches ! i ! k ! nat (preds ! i ! k)) \<and>
       (\<forall>c<nat (preds ! i ! k).
          concat logits_batches ! i ! k ! c
            < concat logits_batches ! i ! k ! nat (preds ! i ! k))"
  proof (intro allI impI)
    fix k assume "k < length (preds ! i)"
    with row(2) have "argmax (concat logits_batches ! i ! k) = Inr (preds ! i ! k)" by simp
    then show "0 \<le> preds ! i ! k \<and>
       nat (preds ! i ! k) < length (concat logits_batches ! i ! k) \<and>
       (\<forall>c<length (concat logits_batches ! i ! k).
          concat logits_batches ! i ! k ! c
            \<le> concat logits_batches ! i ! k ! nat (preds ! i ! k)) \<and>
       (\<forall>c<nat (preds ! i ! k).
          concat logits_batches ! i ! k ! c
            < concat logits_batches ! i ! k ! nat (preds ! i ! k))"
      by (rule argmax_first_max)
  qed
  from run obtain ls where ls: "length ls = length (split (strip query))"
    "\<forall>j<length (split (strip query)). j < length pred \<and> labels_dict (pred ! j) = Some (ls ! j)"
    "output = concat (map2 (\<lambda>w l. w @ tag l @ [32]) (split (strip query)) ls)"
    unfolding label_query_Inr by blast
  from ls(3) have out: "output = concat (map2
      (\<lambda>w l. w @ (if l = NONE_LABEL then [] else py_str ''['' @ l @ py_str '']'') @ py_str '' '')
      (split (strip query)) ls)"
    unfolding tag_def py_str_chars .
  from mask len i row largest ml pred ls(1,2) out show ?thesis by blast
qed

lemmas eval_gather = gather_def concatenate_def same_shape_def argmax_axis2_def argmax_def
  bind_err_def

theorem labels_from_masked_argmax_witness:
  "gather ([[[[1, 2, 0], [0, 1, 5], [3, 1, 3::real]]]], [[[1, 1, 0]]]) =
     Inr ([[1, 2, 0]], [[1, 1, 0]]) \<and>
   query_output iob_labels [[1, 2, 0]] [[1, 1, 0]] 0 (py_str ''a b'') =
     Inr (py_str ''a[B] b[I] '') \<and>
   (\<exists>pred ls.
      (\<forall>k<length ([[1, 2, 0::int]] ! 0).
         0 \<le> [[1, 2, 0::int]] ! 0 ! k \<and>
         nat ([[1, 2, 0]] ! 0 ! k) < length (concat [[[[1, 2, 0], [0, 1, 5], [3, 1, 3::real]]]] ! 0 ! k) \<and>
         (\<forall>c<length (concat [[[[1, 2, 0], [0, 1, 5], [3, 1, 3::real]]]] ! 0 ! k).
            concat [[[[1, 2, 0], [0, 1, 5], [3, 1, 3::real]]]] ! 0 ! k ! c
              \<le> concat [[[[1, 2, 0], [0, 1, 5], [3, 1, 3::real]]]] ! 0 ! k ! nat ([[1, 2, 0]] ! 0 ! k)) \<and>
         (\<forall>c<nat ([[1, 2, 0]] ! 0 ! k).
            concat [[[[1, 2, 0], [0, 1, 5], [3, 1, 3::real]]]] ! 0 ! k ! c
              < concat [[[[1, 2, 0], [0, 1, 5], [3, 1, 3::real]]]] ! 0 ! k ! nat ([[1, 2, 0]] ! 0 ! k))) \<and>
      pred = map fst (filter (\<lambda>(p, m). m > 0.5) (zip ([[1, 2, 0]] ! 0) ([[1, 1, 0::real]] ! 0))) \<and>
      length ls = length (split (strip (py_str ''a b''))) \<and>
      (\<forall>j<length (split (strip (py_str ''a b''))).
         j < length pred \<and> iob_labels (pred ! j) = Some (ls ! j)) \<and>
      py_str ''a[B] b[I] '' = concat (map2
        (\<lambda>w l. w @ (if l = NONE_LABEL then [] else py_str ''['' @ l @ py_str '']'') @ py_str '' '')
        (split (strip (py_str ''a b''))) ls))"
proof -
  have g: "gather ([[[[1, 2, 0], [0, 1, 5], [3, 1, 3::real]]]], [[[1, 1, 0]]]) =
     Inr ([[1, 2, 0]], [[1, 1, 0]])"
    by (simp add: eval_gather)
  have q: "query_output iob_labels [[1, 2, 0]] [[1, 1, 0]] 0 (py_str ''a b'') =
     Inr (py_str ''a[B] b[I] '')"
    by (simp add: eval_pred eval_str eval_label)
  from labels_from_masked_argmax [OF g q] g q show ?thesis by blast
qed

section \<open>Exceptions\<close>

text \<open>
  No cell of the notebooks holds a \<^verbatim>\<open>try\<close> statement, so every step of the model is
  sequenced by \<open>bind_err\<close> or a case distinction that returns the error as it is. The
  lemmas below say when each function raises, and which exception: the one of its first
  step that raises.
\<close>

lemma ex_less_Suc_shift: "(\<exists>k<Suc n. P k) \<longleftrightarrow> P 0 \<or> (\<exists>k<n. P (Suc k))"
  by (auto simp: less_Suc_eq_0_disj)

lemma label_words_Inl:
  "label_words ld pred j ws out = Inl e \<longleftrightarrow>
     (\<exists>k<length ws.
        (\<forall>k'<k. \<exists>p l. py_index pred (j + k') = Inr p \<and> dict_get ld p = Inr l) \<and>
        (py_index pred (j + k) = Inl e \<or>
         (\<exists>p. py_index pred (j + k) = Inr p \<and> dict_get ld p = Inl e)))"
proof (induction ws arbitrary: j out)
  case Nil
  show ?case by simp
next
  case (Cons w ws)
  show ?case
  proof (cases "j < length pred")
    case False
    then show ?thesis
      by (auto simp: label_words_Cons py_index_def ex_less_Suc_shift all_less_Suc_shift)
  next
    case True
    show ?thesis
    proof (cases "ld (pred ! j)")
      case None
      with True show ?thesis
        by (auto simp: label_words_Cons py_index_def dict_get_def ex_less_Suc_shift
            all_less_Suc_shift)
    next
      case (Some l)
      with True show ?thesis
        by (simp add: label_words_Cons Cons.IH py_index_def dict_get_def ex_less_Suc_shift
            all_less_Suc_shift)
    qed
  qed
qed

lemma label_query_Inl:
  "label_query ld pred query = Inl e \<longleftrightarrow>
     (\<exists>k<length (split (strip query)).
        (\<forall>k'<k. \<exists>p l. py_index pred k' = Inr p \<and> dict_get ld p = Inr l) \<and>
        (py_index pred k = Inl e \<or> (\<exists>p. py_index pred k = Inr p \<and> dict_get ld p = Inl e)))"
  by (simp add: label_query_def label_words_Inl)

lemma map_err_Inl:
  "map_err f xs = Inl e \<longleftrightarrow>
     (\<exists>k<length xs. (\<forall>k'<k. \<exists>y. f (xs ! k') = Inr y) \<and> f (xs ! k) = Inl e)"
proof (induction xs)
  case Nil
  show ?case by simp
next
  case (Cons x xs)
  show ?case
  proof (cases "f x")
    case (Inl e')
    then show ?thesis
      by (auto simp: bind_err_def ex_less_Suc_shift all_less_Suc_shift)
  next
    case (Inr y)
    then show ?thesis
      using Cons.IH
      by (auto simp: bind_err_def ex_less_Suc_shift all_less_Suc_shift split: sum.splits)
  qed
qed

lemma argmax_axis2_Inl:
  "argmax_axis2 logits = Inl e \<longleftrightarrow>
     (\<exists>r<length logits.
        (\<forall>r'<r. \<exists>ps. map_err argmax (logits ! r') = Inr ps) \<and>
        (\<exists>k<length (logits ! r).
           (\<forall>k'<k. \<exists>p. argmax (logits ! r ! k') = Inr p) \<and> argmax (logits ! r ! k) = Inl e))"
  unfolding argmax_axis2_def map_err_Inl [of "map_err argmax"] map_err_Inl [of argmax] ..

lemma query_loop_Some:
  "snd (query_loop ld preds sm i qs out) = Some e \<longleftrightarrow>
     (\<exists>n<length qs.
        (\<forall>m<n. \<exists>r. labeled_result ld preds sm (i + m) (qs ! m) = Inr r) \<and>
        labeled_result ld preds sm (i + n) (qs ! n) = Inl e)"
proof (induction qs arbitrary: i out)
  case Nil
  show ?case by simp
next
  case (Cons q qs)
  show ?case
  proof (cases "labeled_result ld preds sm i q")
    case (Inl e')
    then show ?thesis by (auto simp: ex_less_Suc_shift all_less_Suc_shift)
  next
    case (Inr r)
    then show ?thesis
      by (simp add: Cons.IH ex_less_Suc_shift all_less_Suc_shift)
  qed
qed

lemma labeled_result_Inl:
  "labeled_result ld preds sm i query = Inl e \<longleftrightarrow>
     filtered_pred preds sm i = Inl e \<or>
     (\<exists>pred. filtered_pred preds sm i = Inr pred \<and> label_query ld pred query = Inl e)"
  by (auto simp: labeled_result_def query_output_def bind_err_def split: sum.splits)

lemma filtered_pred_Inl:
  "filtered_pred preds sm i = Inl e \<longleftrightarrow>
     py_index preds i = Inl e \<or>
     (\<exists>row. py_index preds i = Inr row \<and>
        (py_index sm i = Inl e \<or>
         (\<exists>m. py_index sm i = Inr m \<and> mask_select row (map (\<lambda>x. x > 0.5) m) = Inl e)))"
proof -
  define P where "P = (\<lambda>x::real. x > 0.5)"
  have "bind_err (py_index preds i) (\<lambda>row.
          bind_err (py_index sm i) (\<lambda>mask. mask_select row (map P mask))) = Inl e \<longleftrightarrow>
     py_index preds i = Inl e \<or>
     (\<exists>row. py_index preds i = Inr row \<and>
        (py_index sm i = Inl e \<or>
         (\<exists>m. py_index sm i = Inr m \<and> mask_select row (map P m) = Inl e)))"
    unfolding bind_err_def by (auto split: sum.splits)
  then show ?thesis unfolding P_def filtered_pred_def .
qed

lemma gather_Inl:
  "gather (logits_batches, mask_batches) = Inl e \<longleftrightarrow>
     concatenate (map length) logits_batches = Inl e \<or>
     (\<exists>logits. concatenate (map length) logits_batches = Inr logits \<and>
        (concatenate length mask_batches = Inl e \<or>
         (\<exists>ms. concatenate length mask_batches = Inr ms \<and> argmax_axis2 logits = Inl e)))"
  by (auto simp: gather_def bind_err_def split: sum.splits)

lemma concatenate_Inl:
  "concatenate shape tensors = Inl e \<longleftrightarrow>
     e = ValueError \<and> (tensors = [] \<or> \<not> same_shape shape (concat tensors))"
  by (auto simp: concatenate_def)

lemma train_cell_Inl:
  "train_cell reset_trainer train = Inl e \<longleftrightarrow>
     reset_trainer = Inl e \<or> (reset_trainer = Inr () \<and> train = Inl e)"
  by (auto simp: train_cell_def bind_err_def split: sum.splits)

lemma display_results_Some:
  "get_vocab (DATA_DIR @ py_str ''label_ids.csv'') = Inr ld \<Longrightarrow>
     snd (display_results get_vocab preds sm qs) = Some e \<longleftrightarrow>
       (\<exists>n<length qs.
          (\<forall>m<n. \<exists>r. labeled_result ld preds sm m (qs ! m) = Inr r) \<and>
          labeled_result ld preds sm n (qs ! n) = Inl e)"
  using query_loop_Some [of ld preds sm 0 qs "[]" e] by (simp add: display_results_def)

lemma inner_error_reaches_caller:
  assumes "get_vocab (DATA_DIR @ py_str ''label_ids.csv'') = Inr ld" "n < length qs"
    "\<forall>m<n. \<exists>r. labeled_result ld preds sm m (qs ! m) = Inr r"
    "filtered_pred preds sm n = Inr pred" "k < length (split (strip (qs ! n)))"
    "\<forall>k'<k. \<exists>p l. py_index pred k' = Inr p \<and> dict_get ld p = Inr l"
    "py_index pred k = Inl e \<or> (\<exists>p. py_index pred k = Inr p \<and> dict_get ld p = Inl e)"
  shows "snd (display_results get_vocab preds sm qs) = Some e"
proof -
  from assms(5-7) have "label_query ld pred (qs ! n) = Inl e"
    unfolding label_query_Inl by blast
  with assms(4) have "labeled_result ld preds sm n (qs ! n) = Inl e"
    unfolding labeled_result_Inl by blast
  moreover have "snd (display_results get_vocab preds sm qs) = Some e \<longleftrightarrow>
       (\<exists>n<length qs.
          (\<forall>m<n. \<exists>r. labeled_result ld preds sm m (qs ! m) = Inr r) \<and>
          labeled_result ld preds sm n (qs ! n) = Inl e)"
    using assms(1) by (rule display_results_Some)
  ultimately show ?thesis using assms(2,3) by blast
qed

text \<open>
  Claim C5. An exception raised by a framework call or by a step of the post-processing
  is the outcome of the cell, unchanged. An exception of \<^verbatim>\<open>pred[j]\<close> or of
  \<^verbatim>\<open>labels_dict[...]\<close> at any word of any query, with everything before it completing,
  is the exception of the whole cell; so is an exception of \<^verbatim>\<open>get_vocab\<close>. Each
  function of the post-processing, of the gathering cell and of the training cell
  raises exactly when one of its steps raises, with that step's exception, and the
  steps themselves raise \<^verbatim>\<open>IndexError\<close> for an index out of bounds and for a mask of
  the wrong length, \<^verbatim>\<open>KeyError\<close> for a missing key, and \<^verbatim>\<open>ValueError\<close> for an empty
  list of batches and for batches of different shapes.
\<close>

theorem exceptions_propagate:
  "(get_vocab (DATA_DIR @ py_str ''label_ids.csv'') = Inr ld \<and> n < length qs \<and>
    (\<forall>m<n. \<exists>r. labeled_result ld preds subtokens_mask m (qs ! m) = Inr r) \<and>
    filtered_pred preds subtokens_mask n = Inr pred \<and>
    k < length (split (strip (qs ! n))) \<and>
    (\<forall>k'<k. \<exists>p l. py_index pred k' = Inr p \<and> dict_get ld p = Inr l) \<and>
    (py_index pred k = Inl e \<or> (\<exists>p. py_index pred k = Inr p \<and> dict_get ld p = Inl e)) \<longrightarrow>
      snd (display_results get_vocab preds subtokens_mask qs) = Some e) \<and>
   (get_vocab (DATA_DIR @ py_str ''label_ids.csv'') = Inl e \<longrightarrow>
      display_results get_vocab preds subtokens_mask qs = ([], Some e)) \<and>
   (get_vocab (DATA_DIR @ py_str ''label_ids.csv'') = Inr ld \<longrightarrow>
      (snd (display_results get_vocab preds subtokens_mask qs) = Some e \<longleftrightarrow>
         (\<exists>n<length qs.
            (\<forall>m<n. \<exists>r. labeled_result ld preds subtokens_mask m (qs ! m) = Inr r) \<and>
            labeled_result ld preds subtokens_mask n (qs ! n) = Inl e))) \<and>
   (labeled_result ld preds subtokens_mask i query = Inl e \<longleftrightarrow>
      filtered_pred preds subtokens_mask i = Inl e \<or>
      (\<exists>pred. filtered_pred preds subtokens_mask i = Inr pred \<and>
         label_query ld pred query = Inl e)) \<and>
   (filtered_pred preds subtokens_mask i = Inl e \<longleftrightarrow>
      py_index preds i = Inl e \<or>
      (\<exists>row. py_index preds i = Inr row \<and>
         (py_index subtokens_mask i = Inl e \<or>
          (\<exists>m. py_index subtokens_mask i = Inr m \<and>
             mask_select row (map (\<lambda>x. x > 0.5) m) = Inl e)))) \<and>
   (label_query ld pred query = Inl e \<longleftrightarrow>
      (\<exists>k<length (split (strip query)).
         (\<forall>k'<k. \<exists>p l. py_index pred k' = Inr p \<and> dict_get ld p = Inr l) \<and>
         (py_index pred k = Inl e \<or>
          (\<exists>p. py_index pred k = Inr p \<and> dict_get ld p = Inl e)))) \<and>
   (py_index pred j = Inl e \<longrightarrow> label_words ld pred j (w # ws) out = Inl e) \<and>
   (py_index pred j = Inr p \<and> dict_get ld p = Inl e \<longrightarrow>
      label_words ld pred j (w # ws) out = Inl e) \<and>
   (py_index pred j = Inr p \<and> dict_get ld p = Inr l \<and>
    label_words ld pred (Suc j) ws
      ((if l \<noteq> NONE_LABEL then (out @ w) @ add_brackets l None else out @ w) @ py_str '' '') = Inl e \<longrightarrow>
      label_words ld pred j (w # ws) out = Inl e) \<and>
   (gather (logits_batches, mask_batches) = Inl e \<longleftrightarrow>
      concatenate (map length) logits_batches = Inl e \<or>
      (\<exists>logits. concatenate (map length) logits_batches = Inr logits \<and>
         (concatenate length mask_batches = Inl e \<or>
          (\<exists>ms. concatenate length mask_batches = Inr ms \<and> argmax_axis2 logits = Inl e)))) \<and>
   (concatenate shape tensors = Inl e \<longleftrightarrow>
      e = ValueError \<and> (tensors = [] \<or> \<not> same_shape shape (concat tensors))) \<and>
   (argmax_axis2 scores = Inl e \<longleftrightarrow>
      (\<exists>r<length scores.
         (\<forall>r'<r. \<exists>ps. map_err argmax (scores ! r') = Inr ps) \<and>
         (\<exists>k<length (scores ! r).
            (\<forall>k'<k. \<exists>p. argmax (scores ! r ! k') = Inr p) \<and>
            argmax (scores ! r ! k) = Inl e))) \<and>
   (train_cell reset_trainer train = Inl e \<longleftrightarrow>
      reset_trainer = Inl e \<or> (reset_trainer = Inr () \<and> train = Inl e)) \<and>
   (py_index xs j = Inl e \<longleftrightarrow> e = IndexError \<and> length xs \<le> j) \<and>
   (dict_get d key = Inl e \<longleftrightarrow> e = KeyError \<and> d key = None) \<and>
   (mask_select xs bs = Inl e \<longleftrightarrow> e = IndexError \<and> length bs \<noteq> length xs)"
proof (intro conjI)
  show "py_index xs j = Inl e \<longleftrightarrow> e = IndexError \<and> length xs \<le> j"
    by (auto simp: py_index_def)
  show "dict_get d key = Inl e \<longleftrightarrow> e = KeyError \<and> d key = None"
    by (auto simp: dict_get_def split: option.splits)
  show "mask_select xs bs = Inl e \<longleftrightarrow> e = IndexError \<and> length bs \<noteq> length xs"
    by (auto simp: mask_select_def)
  show "get_vocab (DATA_DIR @ py_str ''label_ids.csv'') = Inr ld \<and> n < length qs \<and>
    (\<forall>m<n. \<exists>r. labeled_result ld preds subtokens_mask m (qs ! m) = Inr r) \<and>
    filtered_pred preds subtokens_mask n = Inr pred \<and>
    k < length (split (strip (qs ! n))) \<and>
    (\<forall>k'<k. \<exists>p l. py_index pred k' = Inr p \<and> dict_get ld p = Inr l) \<and>
    (py_index pred k = Inl e \<or> (\<exists>p. py_index pred k = Inr p \<and> dict_get ld p = Inl e)) \<longrightarrow>
      snd (display_results get_vocab preds subtokens_mask qs) = Some e"
    using inner_error_reaches_caller [of get_vocab ld n qs preds subtokens_mask pred k e]
    by blast
  show "get_vocab (DATA_DIR @ py_str ''label_ids.csv'') = Inl e \<longrightarrow>
      display_results get_vocab preds subtokens_mask qs = ([], Some e)"
    by (simp add: display_results_def)
  show "get_vocab (DATA_DIR @ py_str ''label_ids.csv'') = Inr ld \<longrightarrow>
      (snd (display_results get_vocab preds subtokens_mask qs) = Some e \<longleftrightarrow>
         (\<exists>n<length qs.
            (\<forall>m<n. \<exists>r. labeled_result ld preds subtokens_mask m (qs ! m) = Inr r) \<and>
            labeled_result ld preds subtokens_mask n (qs ! n) = Inl e))"
    by (rule impI) (rule display_results_Some)
  show "py_index pred j = Inr p \<and> dict_get ld p = Inr l \<and>
    label_words ld pred (Suc j) ws
      ((if l \<noteq> NONE_LABEL then (out @ w) @ add_brackets l None else out @ w) @ py_str '' '') = Inl e \<longrightarrow>
      label_words ld pred j (w # ws) out = Inl e"
    by (simp add: label_words.simps(2) bind_err_def)
  show "py_index pred j = Inl e \<longrightarrow> label_words ld pred j (w # ws) out = Inl e"
    by (simp add: label_words.simps(2) bind_err_def)
  show "py_index pred j = Inr p \<and> dict_get ld p = Inl e \<longrightarrow>
      label_words ld pred j (w # ws) out = Inl e"
    by (simp add: label_words.simps(2) bind_err_def)
qed (rule labeled_result_Inl filtered_pred_Inl label_query_Inl gather_Inl concatenate_Inl
      argmax_axis2_Inl train_cell_Inl)+

theorem exceptions_propagate_witness:
  "display_results (\<lambda>path. Inl FileNotFoundError) [[0], [0]] [[1], [1]]
      [py_str ''a'', py_str ''b c''] = ([], Some FileNotFoundError) \<and>
   filtered_pred [[0], [0]] [[1], [1]] 1 = Inr [0] \<and>
   py_index [0::int] 1 = Inl IndexError \<and>
   snd (display_results (\<lambda>path. Inr iob_labels) [[0], [0]] [[1], [1]]
      [py_str ''a'', py_str ''b c'']) = Some IndexError \<and>
   filtered_pred [[0], [1]] [[1], [1]] 1 = Inr [1] \<and>
   dict_get (map_of [(0, py_str ''O'')]) (1::int) = Inl KeyError \<and>
   snd (display_results (\<lambda>path. Inr (map_of [(0, py_str ''O'')])) [[0], [1]] [[1], [1]]
      [py_str ''a'', py_str ''b'']) = Some KeyError \<and>
   gather ([[[[1, 2::real]]], [[[1, 2, 3]]]], [[[1]], [[1]]]) = Inl ValueError"
proof -
  have a: "display_results (\<lambda>path. Inl FileNotFoundError) [[0], [0]] [[1], [1]]
      [py_str ''a'', py_str ''b c''] = ([], Some FileNotFoundError)"
    by (rule exceptions_propagate [THEN conjunct2, THEN conjunct1, THEN mp]) simp
  have sel1: "filtered_pred [[0], [0]] [[1], [1]] 1 = Inr [0]"
    and sel2: "filtered_pred [[0], [1]] [[1], [1]] 1 = Inr [1]"
    by (simp_all add: eval_pred)
  have idx: "py_index [0::int] 1 = Inl IndexError"
    by (simp add: py_index_def)
  have key: "dict_get (map_of [(0, py_str ''O'')]) (1::int) = Inl KeyError"
    by (simp add: dict_get_def)
  have b: "snd (display_results (\<lambda>path. Inr iob_labels) [[0], [0]] [[1], [1]]
      [py_str ''a'', py_str ''b c'']) = Some IndexError"
    by (rule exceptions_propagate [where ld = iob_labels and n = 1 and k = 1 and pred = "[0]",
          THEN conjunct1, THEN mp])
       (simp add: sel1 idx labeled_result_def eval_pred eval_str eval_label)
  have c: "snd (display_results (\<lambda>path. Inr (map_of [(0, py_str ''O'')])) [[0], [1]] [[1], [1]]
      [py_str ''a'', py_str ''b'']) = Some KeyError"
    by (rule exceptions_propagate [where ld = "map_of [(0, py_str ''O'')]" and n = 1 and k = 0
            and pred = "[1]", THEN conjunct1, THEN mp])
       (simp add: sel2 labeled_result_def eval_pred eval_str label_query_def label_words_Cons
          tag_def NONE_LABEL_def)
  have d: "gather ([[[[1, 2::real]]], [[[1, 2, 3]]]], [[[1]], [[1]]]) = Inl ValueError"
    by (simp add: eval_gather)
  from a sel1 idx b sel2 key c d show ?thesis by blast
qed

section \<open>The pad label\<close>

lemma dl_train_value:
  "dl_train = Inr ((BertTokenClassificationDataLayer
            (os_path_join DATA_DIR (py_str ''text_train.txt''))
            (os_path_join DATA_DIR (py_str ''labels_train.txt''))
            \<lparr>tokenizer_name = py_str ''nemobert'',
              pretrained_model_name = py_str ''bert-base-cased'', do_lower_case = False\<rparr>
            MAX_SEQ_LEN)
          \<lparr>shuffle := True, batch_size := BATCH_SIZE, use_cache := USE_CACHE\<rparr>)"
  by (simp add: dl_train_def tokenizer_biobert bind_err_def)

text \<open>
  Claim C6. \<open>NONE_LABEL\<close> is \<^verbatim>\<open>O\<close>, and the training data layer, built without a
  \<^verbatim>\<open>pad_label\<close> argument, has the default pad label \<^verbatim>\<open>O\<close>, the none label. With the
  label encoding modelled from the specification, every position past the end of a
  sentence's tags carries the numeric id of that label.
\<close>

theorem pad_label_is_outside:
  "NONE_LABEL = py_str ''O'' \<and>
   (\<exists>dl. dl_train = Inr dl \<and> pad_label dl = NONE_LABEL \<and>
      max_seq_length dl = MAX_SEQ_LEN \<and>
      length (encode_labels ids dl tags) = MAX_SEQ_LEN \<and>
      (\<forall>k. length tags \<le> k \<and> k < MAX_SEQ_LEN \<longrightarrow>
         encode_labels ids dl tags ! k = ids NONE_LABEL))"
  by (auto simp: dl_train_value BertTokenClassificationDataLayer_def NONE_LABEL_def
      encode_labels_def Let_def nth_append)

theorem pad_label_witness:
  "length [py_str ''B''] \<le> (5::nat) \<and> 5 < MAX_SEQ_LEN \<and>
   (\<exists>dl. dl_train = Inr dl \<and> pad_label dl = py_str ''O'' \<and>
      encode_labels (\<lambda>l. if l = py_str ''O'' then 0 else 1) dl [py_str ''B''] ! 5 = 0)"
proof -
  have r: "length [py_str ''B''] \<le> (5::nat) \<and> 5 < MAX_SEQ_LEN"
    by (simp add: MAX_SEQ_LEN_def)
  from pad_label_is_outside [of "\<lambda>l. if l = py_str ''O'' then 0 else 1" "[py_str ''B'']"]
  obtain dl where dl: "dl_train = Inr dl" "pad_label dl = NONE_LABEL"
    "\<forall>k. length [py_str ''B''] \<le> k \<and> k < MAX_SEQ_LEN \<longrightarrow>
       encode_labels (\<lambda>l. if l = py_str ''O'' then 0 else 1) dl [py_str ''B''] ! k =
       (if NONE_LABEL = py_str ''O'' then 0 else 1)"
    by blast
  from dl(3) r have "encode_labels (\<lambda>l. if l = py_str ''O'' then 0 else 1) dl [py_str ''B''] ! 5 =
       (if NONE_LABEL = py_str ''O'' then 0 else (1::int))"
    by blast
  with dl(1,2) r show ?thesis by (auto simp: NONE_LABEL_def)
qed

end
